theory Spec2Isabelle
  imports Complex_Main
begin

section \<open>The runner of monk-js: data model\<close>

text \<open>
  The development embeds \<^verbatim>\<open>packages/runner/usr/src/utils.ts\<close> (the functions
  \<^verbatim>\<open>executePackageCommand\<close> and \<^verbatim>\<open>runPackageCommand\<close>) and the exit-code logic of
  \<^verbatim>\<open>packages/runner/usr/src/cli.ts\<close>.

  An object used as a dictionary is the map of its own properties, read through
  \<open>getProperty\<close>, which also finds what the object inherits from \<^verbatim>\<open>Object.prototype\<close>;
  arrays are lists; a thrown exception is a value. What the program gets from Node (the
  number of logical CPUs, the contents of the manifests, the outcome of a spawned command
  and the time it takes, the functions of the \<^verbatim>\<open>path\<close> module) is a field of the record
  \<open>host\<close>.
\<close>

record CommandLineError =
  stdout :: string
  stderr :: string
  code :: int

text \<open>
  Whatever a \<^verbatim>\<open>catch\<close> can receive: the object \<^verbatim>\<open>{stdout, stderr, code}\<close> with which
  \<^verbatim>\<open>processSpawn\<close> rejects on a non-zero exit code, the argument of the child's
  \<^verbatim>\<open>error\<close> event, the exception of \<^verbatim>\<open>fs.readFileSync\<close> or \<^verbatim>\<open>JSON.parse\<close>, and the
  \<^verbatim>\<open>TypeError\<close> of reading a property of \<^verbatim>\<open>undefined\<close>.
\<close>

datatype thrown =
    Rejected CommandLineError
  | ErrorEvent
  | ManifestError
  | TypeError

record CommandExecutionError =
  file' :: string
  error :: thrown

record PackageJson =
  name :: string
  version :: string
  dependencies :: "(string \<rightharpoonup> string) option"
  devDependencies :: "(string \<rightharpoonup> string) option"

text \<open>The field \<^verbatim>\<open>uncheck: boolean | string\<close> of a \<^verbatim>\<open>Partial<RunnerEnv>\<close>.\<close>

datatype uncheckArg = Undefined | Bool bool | Str string

record RunnerEnv =
  root :: "string option"
  uncheck :: uncheckArg
  packages :: "string option"

text \<open>The local variable \<^verbatim>\<open>uncheck: boolean | string[]\<close>; it is never \<^verbatim>\<open>false\<close>.\<close>

datatype uncheckList = ExemptAll | Names "string list"

record host =
  cpus :: nat
  readFile :: "string \<Rightarrow> PackageJson option"
  processSpawn :: "string \<Rightarrow> string list \<Rightarrow> string \<Rightarrow> thrown option"
  spawnTime :: "string \<Rightarrow> string list \<Rightarrow> string \<Rightarrow> nat"
  dirname :: "string \<Rightarrow> string"
  resolve :: "string \<Rightarrow> string"

text \<open>
  \<open>readFile h f\<close> is \<^verbatim>\<open>JSON.parse(fs.readFileSync(f, 'utf-8'))\<close>, \<open>None\<close> when either
  throws. \<open>processSpawn h command args cwd\<close> is \<open>None\<close> when the promise resolves and
  \<open>Some e\<close> when it rejects with \<open>e\<close>; \<open>spawnTime h command args cwd\<close> is the time
  from the spawn to the moment the promise settles.
\<close>

text \<open>
  The value of \<^verbatim>\<open>obj[k]\<close> for an object whose prototype is \<^verbatim>\<open>Object.prototype\<close> (an
  object literal, an object made by \<^verbatim>\<open>JSON.parse\<close>): the own property, or else the
  member of \<^verbatim>\<open>Object.prototype\<close> of that name, or else \<^verbatim>\<open>undefined\<close>.
\<close>

definition objectPrototype :: "string list" where
  "objectPrototype =
     [''constructor'', ''__defineGetter__'', ''__defineSetter__'', ''hasOwnProperty'',
      ''__lookupGetter__'', ''__lookupSetter__'', ''isPrototypeOf'', ''propertyIsEnumerable'',
      ''toString'', ''valueOf'', ''__proto__'', ''toLocaleString'']"

datatype 'a property = Own 'a | Inherited string | NoProperty

definition getProperty :: "(string \<rightharpoonup> 'a) \<Rightarrow> string \<Rightarrow> 'a property" where
  "getProperty obj k =
     (case obj k of
        Some v \<Rightarrow> Own v
      | None \<Rightarrow> if k \<in> set objectPrototype then Inherited k else NoProperty)"

text \<open>
  \<^verbatim>\<open>obj[k] = v\<close> for a string \<open>v\<close>: the setter of \<^verbatim>\<open>__proto__\<close> ignores a value that
  is not an object, every other key becomes an own property.
\<close>

definition setProperty :: "(string \<rightharpoonup> string) \<Rightarrow> string \<Rightarrow> string \<Rightarrow> (string \<rightharpoonup> string)" where
  "setProperty obj k v = (if k = ''__proto__'' then obj else obj(k \<mapsto> v))"

text \<open>
  A line written to the console by \<^verbatim>\<open>runPackageCommand\<close>, from its scheduler loop
  onwards.
\<close>

datatype message =
    Processing nat nat
  | DeadlockFound "string property list" "string \<rightharpoonup> string list"
  | ErrorsEncountered nat
  | Completed

text \<open>
  The local variables of \<^verbatim>\<open>runPackageCommand\<close>. \<open>dispatched\<close> is a history variable:
  one entry per round of the \<^verbatim>\<open>do\<close> loop, the chunks handed to \<^verbatim>\<open>Promise.allSettled\<close>
  in that round, in order.
\<close>

record state =
  packagesCopy :: "string list"
  files :: "string \<rightharpoonup> string"
  deps :: "string \<rightharpoonup> string list"
  errors :: "CommandExecutionError list"
  processedFiles :: nat
  dispatched :: "string list list list"
  console :: "message list"

text \<open>What \<^verbatim>\<open>runPackageCommand\<close> returns: \<^verbatim>\<open>false | number | CommandExecutionError[]\<close>.\<close>

datatype returned = RetFalse | RetCode nat | RetErrors "CommandExecutionError list"

datatype outcome = Threw thrown | Returned returned

section \<open>Arrays and strings of JavaScript\<close>

text \<open>\<^verbatim>\<open>Array.prototype.indexOf\<close>: the first index of the element, or \<open>-1\<close>.\<close>

fun indexOf :: "'a list \<Rightarrow> 'a \<Rightarrow> int" where
  "indexOf [] x = -1"
| "indexOf (y # ys) x =
     (if y = x then 0 else (let i = indexOf ys x in if i < 0 then -1 else i + 1))"

text \<open>
  \<^verbatim>\<open>xs.splice(start, 1)\<close>, the array it leaves: a negative \<open>start\<close> counts from the
  end, so that \<open>start = -1\<close> deletes the last element.
\<close>

definition splice1 :: "int \<Rightarrow> 'a list \<Rightarrow> 'a list" where
  "splice1 start xs =
     (let len = int (length xs);
          k = (if start < 0 then max (len + start) 0 else min start len)
      in take (nat k) xs @ drop (nat k + 1) xs)"

text \<open>\<^verbatim>\<open>s.split(',')\<close>.\<close>

fun splitComma :: "string \<Rightarrow> string list" where
  "splitComma [] = [[]]"
| "splitComma (c # cs) =
     (if c = CHR '','' then [] # splitComma cs
      else (case splitComma cs of [] \<Rightarrow> [[c]] | w # ws \<Rightarrow> (c # w) # ws))"

text \<open>
  The value of \<^verbatim>\<open>dependencies[k]\<close> in a condition: the empty string and \<^verbatim>\<open>undefined\<close>
  are falsy, a member of \<^verbatim>\<open>Object.prototype\<close> (a function or an object) is truthy.
\<close>

fun truthy :: "string property \<Rightarrow> bool" where
  "truthy (Own v) = (v \<noteq> [])"
| "truthy (Inherited k) = True"
| "truthy NoProperty = False"

text \<open>\<^verbatim>\<open>Math.round\<close>: the nearest integer, a half rounded up.\<close>

definition mathRound :: "real \<Rightarrow> int" where
  "mathRound x = \<lfloor>x + 1 / 2\<rfloor>"

section \<open>executePackageCommand\<close>

text \<open>
  The function up to its \<^verbatim>\<open>await\<close>, which runs when the function is called: either the
  manifest cannot be read and the \<^verbatim>\<open>catch\<close> pushes its entry at once, or the command is
  spawned in \<open>targetDir\<close>.
\<close>

definition beforeAwait :: "host \<Rightarrow> string \<Rightarrow> CommandExecutionError + string \<times> string" where
  "beforeAwait h fl =
     (let buildDirectory = dirname h fl;
          targetDir = resolve h buildDirectory
      in case readFile h fl of
           None \<Rightarrow> Inl \<lparr>file' = buildDirectory, error = ManifestError\<rparr>
         | Some packageInfo \<Rightarrow> Inr (buildDirectory, targetDir))"

text \<open>The function after its \<^verbatim>\<open>await\<close>: what the \<^verbatim>\<open>catch\<close> pushes when the promise rejects.\<close>

definition afterAwait ::
  "host \<Rightarrow> string \<Rightarrow> string list \<Rightarrow> string \<times> string \<Rightarrow> CommandExecutionError list" where
  "afterAwait h command args spawned =
     (case processSpawn h command args (snd spawned) of
        None \<Rightarrow> []
      | Some e \<Rightarrow> [\<lparr>file' = fst spawned, error = e\<rparr>])"

text \<open>One call of the function, from the call to the moment its promise is settled.\<close>

definition executePackageCommand ::
  "host \<Rightarrow> CommandExecutionError list \<Rightarrow> string \<Rightarrow> string list \<Rightarrow> string
     \<Rightarrow> CommandExecutionError list" where
  "executePackageCommand h errs command args fl =
     (case beforeAwait h fl of
        Inl caught \<Rightarrow> errs @ [caught]
      | Inr spawned \<Rightarrow> errs @ afterAwait h command args spawned)"

section \<open>runPackageCommand\<close>

definition maxThreads :: "host \<Rightarrow> nat" where
  "maxThreads h = nat (max (mathRound (real (cpus h) / 2)) 2)"

definition processUncheck :: "uncheckArg \<Rightarrow> uncheckList" where
  "processUncheck u =
     (if u = Bool True \<or> u = Str ''*'' then ExemptAll
      else case u of Str s \<Rightarrow> Names (splitComma s) | _ \<Rightarrow> Names [])"

subsection \<open>Scanning the dependencies\<close>

text \<open>
  The inner loop \<^verbatim>\<open>for (const file of packagesCopy)\<close>, for one \<^verbatim>\<open>currentPackageInfo\<close>.
  \<^verbatim>\<open>deps[name] ??= []\<close> assigns when \<^verbatim>\<open>deps[name]\<close> is \<^verbatim>\<open>undefined\<close>, which it is not for
  the name of a member of \<^verbatim>\<open>Object.prototype\<close>. The condition of the \<^verbatim>\<open>if\<close> is evaluated
  from left to right: the \<^verbatim>\<open>dependencies\<close> of an unchecked package are not read, reading a
  property of missing \<^verbatim>\<open>dependencies\<close> throws, and so does the call of \<^verbatim>\<open>includes\<close> on a
  \<^verbatim>\<open>deps[name]\<close> that is not an array.
\<close>

fun scanFiles ::
  "host \<Rightarrow> string list \<Rightarrow> PackageJson \<Rightarrow> string list \<Rightarrow> (string \<rightharpoonup> string list)
     \<Rightarrow> thrown + (string \<rightharpoonup> string list)" where
  "scanFiles h unc currentPackageInfo [] dps = Inr dps"
| "scanFiles h unc currentPackageInfo (fl # rest) dps =
     (case readFile h fl of
        None \<Rightarrow> Inl ManifestError
      | Some packageInfo \<Rightarrow>
          (let dps1 = (case getProperty dps (name packageInfo) of
                         NoProperty \<Rightarrow> dps(name packageInfo \<mapsto> [])
                       | _ \<Rightarrow> dps)
           in if name packageInfo \<notin> set unc then
                (case dependencies packageInfo of
                   None \<Rightarrow> Inl TypeError
                 | Some d \<Rightarrow>
                     if truthy (getProperty d (name currentPackageInfo)) then
                       (case getProperty dps1 (name packageInfo) of
                          Own own \<Rightarrow>
                            if name currentPackageInfo \<notin> set own
                            then scanFiles h unc currentPackageInfo rest
                                   (dps1(name packageInfo \<mapsto> own @ [name currentPackageInfo]))
                            else scanFiles h unc currentPackageInfo rest dps1
                        | _ \<Rightarrow> Inl TypeError)
                     else scanFiles h unc currentPackageInfo rest dps1)
              else scanFiles h unc currentPackageInfo rest dps1))"

text \<open>The outer loop \<^verbatim>\<open>for (const currentFile of packagesCopy)\<close>.\<close>

fun scanDependencies ::
  "host \<Rightarrow> string list \<Rightarrow> string list \<Rightarrow> string list
     \<Rightarrow> (string \<rightharpoonup> string) \<times> (string \<rightharpoonup> string list)
     \<Rightarrow> thrown + (string \<rightharpoonup> string) \<times> (string \<rightharpoonup> string list)" where
  "scanDependencies h unc pkgs [] fd = Inr fd"
| "scanDependencies h unc pkgs (currentFile # rest) fd =
     (case readFile h currentFile of
        None \<Rightarrow> Inl ManifestError
      | Some currentPackageInfo \<Rightarrow>
          (case scanFiles h unc currentPackageInfo pkgs (snd fd) of
             Inl e \<Rightarrow> Inl e
           | Inr dps \<Rightarrow>
               scanDependencies h unc pkgs rest
                 (setProperty (fst fd) currentFile (name currentPackageInfo), dps)))"

subsection \<open>One round of the scheduler\<close>

text \<open>
  A value used as a property key is converted to a string: \<^verbatim>\<open>undefined\<close> to
  \<^verbatim>\<open>"undefined"\<close>, the object \<^verbatim>\<open>Object.prototype\<close> (what \<^verbatim>\<open>__proto__\<close> gives) and the
  functions of \<^verbatim>\<open>Object.prototype\<close> to the strings that Node gives for them.
\<close>

definition propertyKey :: "string property \<Rightarrow> string" where
  "propertyKey v =
     (case v of
        Own s \<Rightarrow> s
      | NoProperty \<Rightarrow> ''undefined''
      | Inherited k \<Rightarrow>
          if k = ''__proto__'' then ''[object Object]''
          else ''function '' @ (if k = ''constructor'' then ''Object'' else k)
                 @ ''() { [native code] }'')"

text \<open>\<^verbatim>\<open>Object.hasOwn(deps, files[file]) && deps[files[file]].length == 0\<close>.\<close>

definition isEmptyPackage :: "state \<Rightarrow> string \<Rightarrow> bool" where
  "isEmptyPackage s fl =
     (case deps s (propertyKey (getProperty (files s) fl)) of
        None \<Rightarrow> False
      | Some ds \<Rightarrow> length ds = 0)"

definition emptyPackages :: "uncheckList \<Rightarrow> state \<Rightarrow> string list" where
  "emptyPackages unc s =
     (if unc \<noteq> ExemptAll then filter (isEmptyPackage s) (packagesCopy s)
      else packagesCopy s)"

text \<open>
  \<^verbatim>\<open>await Promise.allSettled(chunk.map(buildCommand))\<close>. The \<^verbatim>\<open>map\<close> calls the function
  for each item in turn, and each call runs up to its \<^verbatim>\<open>await\<close>: the entries of the
  manifests that cannot be read come first, in the order of the items. The commands then
  run together, and each entry of a failed command is pushed when its promise settles: in
  the order of the times the commands take, two commands that take the same time in the
  order of the items. The loop goes on when all have settled.
\<close>

definition runChunk ::
  "host \<Rightarrow> string \<Rightarrow> string list \<Rightarrow> string list \<Rightarrow> CommandExecutionError list
     \<Rightarrow> CommandExecutionError list" where
  "runChunk h command args chunk errs =
     (let started = map (beforeAwait h) chunk;
          caught = concat (map (case_sum (\<lambda>x. [x]) (\<lambda>spawned. [])) started);
          running = concat (map (case_sum (\<lambda>x. []) (\<lambda>spawned. [spawned])) started);
          settled = sort_key (\<lambda>spawned. spawnTime h command args (snd spawned)) running
      in errs @ caught @ concat (map (afterAwait h command args) settled))"

text \<open>
  The loop \<^verbatim>\<open>while (chunks.length > 0)\<close>; \<open>npackages\<close> is \<^verbatim>\<open>packages.length\<close>. The state it
  is given has a fresh last entry in \<open>dispatched\<close>, to which the chunks are added.
\<close>

definition addChunk :: "string list \<Rightarrow> string list list list \<Rightarrow> string list list list" where
  "addChunk chunk rounds =
     (if rounds = [] then [[chunk]] else butlast rounds @ [last rounds @ [chunk]])"

function splitByChunks ::
  "host \<Rightarrow> string \<Rightarrow> string list \<Rightarrow> nat \<Rightarrow> string list \<Rightarrow> state \<Rightarrow> state" where
  "splitByChunks h command args npackages chunks s =
     (if length chunks > 0 then
        (let chunk = take (maxThreads h) chunks
         in splitByChunks h command args npackages (drop (maxThreads h) chunks)
              (s\<lparr>console := console s @ [Processing (processedFiles s + length chunk) npackages],
                 errors := runChunk h command args chunk (errors s),
                 processedFiles := processedFiles s + length chunk,
                 dispatched := addChunk chunk (dispatched s)\<rparr>))
      else s)"
  by pat_completeness auto

termination splitByChunks
proof (relation "measure (\<lambda>(h, command, args, npackages, chunks, s). length chunks)")
  show "wf (measure (\<lambda>(h, command, args, npackages, chunks, s). length chunks))"
    by simp
next
  fix h :: host and command :: string and args :: "string list" and npackages :: nat
    and chunks :: "string list" and s :: state and x :: "string list"
  assume nonempty: "0 < length chunks"
  have "\<lfloor>real (cpus h) / 2 + 1 / 2\<rfloor> = int ((cpus h + 1) div 2)"
    by (simp add: floor_eq_iff) linarith
  then have "2 \<le> maxThreads h"
    by (simp add: maxThreads_def mathRound_def max_def)
  with nonempty have "length (drop (maxThreads h) chunks) < length chunks"
    by simp
  then show "((h, command, args, npackages, drop (maxThreads h) chunks,
                s\<lparr>console := console s @ [Processing (processedFiles s + length x) npackages],
                   errors := runChunk h command args x (errors s),
                   processedFiles := processedFiles s + length x,
                   dispatched := addChunk x (dispatched s)\<rparr>),
               (h, command, args, npackages, chunks, s))
             \<in> measure (\<lambda>(h, command, args, npackages, chunks, s). length chunks)"
    by simp
qed

declare splitByChunks.simps [simp del]

text \<open>
  The body of \<^verbatim>\<open>for (const file of emptyPackages)\<close>: the file leaves \<^verbatim>\<open>packagesCopy\<close>,
  its package leaves the keys of \<^verbatim>\<open>deps\<close>, and every remaining array of \<^verbatim>\<open>deps\<close> is
  spliced at the index of the package's name, which is \<open>-1\<close> for a name that is not in
  the array and for a \<^verbatim>\<open>files[file]\<close> that is not a string.
\<close>

definition indexOfKey :: "string list \<Rightarrow> string property \<Rightarrow> int" where
  "indexOfKey ds packageName = (case packageName of Own n \<Rightarrow> indexOf ds n | _ \<Rightarrow> -1)"

definition retirePackage :: "state \<Rightarrow> string \<Rightarrow> state" where
  "retirePackage s fl =
     (let packageName = getProperty (files s) fl;
          deps1 = (deps s)(propertyKey packageName := None)
      in s\<lparr>packagesCopy := splice1 (indexOf (packagesCopy s) fl) (packagesCopy s),
           deps := (\<lambda>dep. case deps1 dep of
                      None \<Rightarrow> None
                    | Some ds \<Rightarrow> Some (splice1 (indexOfKey ds packageName) ds))\<rparr>)"

definition retireAll :: "string list \<Rightarrow> state \<Rightarrow> state" where
  "retireAll empties s = foldl retirePackage s empties"

subsection \<open>The scheduler\<close>

text \<open>
  One pass through the body of the \<^verbatim>\<open>do\<close> loop when no deadlock is found: the
  packages without dependencies are dispatched in chunks, and then (when \<^verbatim>\<open>uncheck\<close>
  is not \<^verbatim>\<open>true\<close>) retired, each in turn.
\<close>

definition dispatchFrontier ::
  "host \<Rightarrow> string \<Rightarrow> string list \<Rightarrow> nat \<Rightarrow> uncheckList \<Rightarrow> state \<Rightarrow> state" where
  "dispatchFrontier h command args npackages unc s =
     splitByChunks h command args npackages (emptyPackages unc s)
       (s\<lparr>dispatched := dispatched s @ [[]]\<rparr>)"

definition retireFrontier ::
  "host \<Rightarrow> string \<Rightarrow> string list \<Rightarrow> nat \<Rightarrow> uncheckList \<Rightarrow> state \<Rightarrow> state" where
  "retireFrontier h command args npackages unc s =
     retireAll (emptyPackages unc s) (dispatchFrontier h command args npackages unc s)"

text \<open>
  The \<^verbatim>\<open>do ... while (packagesCopy.length > 0)\<close> loop. The result is the state in which
  the loop is left, with \<open>True\<close> when it is left by \<^verbatim>\<open>return 1\<close>.
\<close>

function schedulerLoop ::
  "host \<Rightarrow> string \<Rightarrow> string list \<Rightarrow> nat \<Rightarrow> uncheckList \<Rightarrow> state \<Rightarrow> bool \<times> state" where
  "schedulerLoop h command args npackages unc s =
     (if length (emptyPackages unc s) = 0 \<and> length (packagesCopy s) > 0 then
        (True, s\<lparr>console := console s
                  @ [DeadlockFound (map (getProperty (files s)) (packagesCopy s)) (deps s)]\<rparr>)
      else if unc \<noteq> ExemptAll then
        (if length (packagesCopy (retireFrontier h command args npackages unc s)) > 0
         then schedulerLoop h command args npackages unc
                (retireFrontier h command args npackages unc s)
         else (False, retireFrontier h command args npackages unc s))
      else (False, dispatchFrontier h command args npackages unc s))"
  by pat_completeness auto

termination schedulerLoop
proof (relation "measure (\<lambda>(h, command, args, npackages, unc, s). length (packagesCopy s))")
  show "wf (measure (\<lambda>(h, command, args, npackages, unc, s). length (packagesCopy s)))"
    by simp
next
  fix h :: host and command :: string and args :: "string list" and npackages :: nat
    and unc :: uncheckList and s :: state
  let ?empties = "emptyPackages unc s"
  let ?s2 = "retireFrontier h command args npackages unc s"
  assume frontier: "\<not> (length ?empties = 0 \<and> 0 < length (packagesCopy s))"
    and left: "0 < length (packagesCopy ?s2)"
  have chunks: "packagesCopy (splitByChunks h command args npackages cs t) = packagesCopy t"
    for cs t
    by (induction h command args npackages cs t rule: splitByChunks.induct)
       (subst splitByChunks.simps, simp add: Let_def)
  have index: "- 1 \<le> indexOf xs x \<and> indexOf xs x < int (length xs) \<or> xs = []"
    for xs :: "string list" and x
    by (induction xs) (auto simp: Let_def)
  have splice: "length (splice1 (indexOf xs x) xs) = length xs - 1"
    for xs :: "string list" and x
    using index [of xs x] by (cases "xs = []") (auto simp: splice1_def Let_def)
  have retire: "length (packagesCopy (foldl retirePackage t es)) = length (packagesCopy t) - length es"
    for es t
    by (induction es arbitrary: t) (auto simp: retirePackage_def Let_def splice)
  have shrunk: "length (packagesCopy ?s2) = length (packagesCopy s) - length ?empties"
    by (simp add: retireFrontier_def dispatchFrontier_def retireAll_def retire chunks)
  with left have "0 < length (packagesCopy s)"
    by linarith
  with frontier have "0 < length ?empties"
    by blast
  with shrunk left have "length (packagesCopy ?s2) < length (packagesCopy s)"
    by linarith
  then show "((h, command, args, npackages, unc, ?s2), (h, command, args, npackages, unc, s))
             \<in> measure (\<lambda>(h, command, args, npackages, unc, s). length (packagesCopy s))"
    by simp
qed

declare schedulerLoop.simps [simp del]

text \<open>
  The state in which the pass \<open>k + 1\<close> through the body of the \<^verbatim>\<open>do\<close> loop begins, when
  the loop started in \<open>s\<close> has such a pass: the passes before it have ended at the
  \<^verbatim>\<open>while\<close> with packages left.
\<close>

fun roundState ::
  "host \<Rightarrow> string \<Rightarrow> string list \<Rightarrow> nat \<Rightarrow> uncheckList \<Rightarrow> state \<Rightarrow> nat \<Rightarrow> state option" where
  "roundState h command args npackages unc s 0 = Some s"
| "roundState h command args npackages unc s (Suc k) =
     (if length (emptyPackages unc s) = 0 \<and> length (packagesCopy s) > 0 then None
      else if unc \<noteq> ExemptAll then
        (if length (packagesCopy (retireFrontier h command args npackages unc s)) > 0
         then roundState h command args npackages unc
                (retireFrontier h command args npackages unc s) k
         else None)
      else None)"

text \<open>
  \<^verbatim>\<open>runPackageCommand\<close>: what it returns or throws, and the state it ends in. The scan
  comes before the loop; when it throws, the state given is the one before the scan.
\<close>

definition initialState :: "string list \<Rightarrow> state" where
  "initialState pkgs =
     \<lparr>packagesCopy = pkgs, files = Map.empty, deps = Map.empty, errors = [],
      processedFiles = 0, dispatched = [], console = []\<rparr>"

definition scanAllDependencies ::
  "host \<Rightarrow> uncheckList \<Rightarrow> string list
     \<Rightarrow> thrown + (string \<rightharpoonup> string) \<times> (string \<rightharpoonup> string list)" where
  "scanAllDependencies h unc pkgs =
     (case unc of
        ExemptAll \<Rightarrow> Inr (Map.empty, Map.empty)
      | Names ns \<Rightarrow> scanDependencies h ns pkgs pkgs (Map.empty, Map.empty))"

definition runPackageCommand ::
  "host \<Rightarrow> RunnerEnv \<Rightarrow> string list \<Rightarrow> string \<Rightarrow> string list \<Rightarrow> outcome \<times> state" where
  "runPackageCommand h env pkgs command args =
     (let unc = processUncheck (uncheck env)
      in case scanAllDependencies h unc pkgs of
           Inl e \<Rightarrow> (Threw e, initialState pkgs)
         | Inr fd \<Rightarrow>
             (case schedulerLoop h command args (length pkgs) unc
                     ((initialState pkgs)\<lparr>files := fst fd, deps := snd fd\<rparr>) of
                (True, s) \<Rightarrow> (Returned (RetCode 1), s)
              | (False, s) \<Rightarrow>
                  if length (errors s) > 0
                  then (Returned (RetErrors (errors s)),
                        s\<lparr>console := console s @ [ErrorsEncountered (length (errors s))]\<rparr>)
                  else (Returned RetFalse, s\<lparr>console := console s @ [Completed]\<rparr>)))"

section \<open>The command line of the runner\<close>

text \<open>The value of \<^verbatim>\<open>!result\<close> is the negation of this.\<close>

fun truthyReturned :: "returned \<Rightarrow> bool" where
  "truthyReturned RetFalse = False"
| "truthyReturned (RetCode n) = (n \<noteq> 0)"
| "truthyReturned (RetErrors es) = True"

text \<open>
  The exit code of the process running \<^verbatim>\<open>cli.ts\<close>, given the command (the first
  argument, if there is one) and the list of manifests found under the packages
  directory: \<^verbatim>\<open>process.exit(1)\<close> gives 1, an exception that leaves the module gives 1,
  and the end of the module gives 0.
\<close>

definition cliMain ::
  "host \<Rightarrow> RunnerEnv \<Rightarrow> string option \<Rightarrow> string list \<Rightarrow> string list \<Rightarrow> nat" where
  "cliMain h env command args pkgs =
     (case command of
        None \<Rightarrow> 0
      | Some c \<Rightarrow>
          (case fst (runPackageCommand h env pkgs c args) of
             Threw e \<Rightarrow> 1
           | Returned r \<Rightarrow> if \<not> truthyReturned r then 1 else 0))"

section \<open>Notions used in the statements\<close>

text \<open>The array \<^verbatim>\<open>deps[q]\<close>, empty when \<^verbatim>\<open>deps\<close> has no key \<open>q\<close>.\<close>

definition unresolved :: "(string \<rightharpoonup> string list) \<Rightarrow> string \<Rightarrow> string list" where
  "unresolved dps q = (case dps q of None \<Rightarrow> [] | Some ds \<Rightarrow> ds)"

text \<open>The object \<^verbatim>\<open>deps\<close> after the scan, empty when the scan throws.\<close>

definition builtDeps :: "host \<Rightarrow> uncheckList \<Rightarrow> string list \<Rightarrow> (string \<rightharpoonup> string list)" where
  "builtDeps h unc pkgs =
     (case scanAllDependencies h unc pkgs of Inl e \<Rightarrow> Map.empty | Inr fd \<Rightarrow> snd fd)"

text \<open>
  What the \<^verbatim>\<open>if\<close> of the scan tests before it looks into \<^verbatim>\<open>deps\<close>: the manifest at
  \<open>fq\<close> is named \<open>q\<close>, is not unchecked, and \<^verbatim>\<open>dependencies[p]\<close> is truthy.
\<close>

definition findsDependency :: "host \<Rightarrow> string list \<Rightarrow> string \<Rightarrow> string \<Rightarrow> string \<Rightarrow> bool" where
  "findsDependency h unc fq q p =
     (case readFile h fq of
        None \<Rightarrow> False
      | Some packageInfo \<Rightarrow>
          name packageInfo = q \<and> q \<notin> set unc
          \<and> (case dependencies packageInfo of
                None \<Rightarrow> False
              | Some d \<Rightarrow> truthy (getProperty d p)))"

text \<open>
  The manifest at \<open>fq\<close> is named \<open>q\<close>, is not unchecked, and its \<^verbatim>\<open>dependencies\<close> give
  the key \<open>p\<close> a non-empty string.
\<close>

definition declares :: "host \<Rightarrow> string list \<Rightarrow> string \<Rightarrow> string \<Rightarrow> string \<Rightarrow> bool" where
  "declares h unc fq q p =
     (case readFile h fq of
        None \<Rightarrow> False
      | Some packageInfo \<Rightarrow>
          name packageInfo = q \<and> q \<notin> set unc
          \<and> (case dependencies packageInfo of
                None \<Rightarrow> False
              | Some d \<Rightarrow> (case d p of None \<Rightarrow> False | Some v \<Rightarrow> v \<noteq> [])))"

text \<open>The manifest at \<open>fp\<close> is named \<open>p\<close>.\<close>

definition named :: "host \<Rightarrow> string \<Rightarrow> string \<Rightarrow> bool" where
  "named h fp p = (case readFile h fp of None \<Rightarrow> False | Some packageInfo \<Rightarrow> name packageInfo = p)"

text \<open>
  \<open>x\<close> is the entry of a failure of the file \<open>fl\<close>: it has the directory of the file,
  and its error is that of the manifest that cannot be read, or else the one with which
  the command spawned in that directory rejects.
\<close>

definition failure ::
  "host \<Rightarrow> string \<Rightarrow> string list \<Rightarrow> string \<Rightarrow> CommandExecutionError \<Rightarrow> bool" where
  "failure h command args fl x =
     (file' x = dirname h fl
      \<and> (case readFile h fl of
            None \<Rightarrow> error x = ManifestError
          | Some packageInfo \<Rightarrow>
              processSpawn h command args (resolve h (dirname h fl)) = Some (error x)))"

text \<open>
  The commands in flight. A chunk given to \<^verbatim>\<open>Promise.allSettled\<close> starts each of its
  items, and the \<^verbatim>\<open>await\<close> ends when each has settled; \<open>executing\<close> counts the items
  started and not yet settled.
\<close>

datatype event = Started string | Settled string

definition chunkEvents :: "string list \<Rightarrow> event list" where
  "chunkEvents chunk = map Started chunk @ map Settled chunk"

definition runEvents :: "string list list list \<Rightarrow> event list" where
  "runEvents rounds = concat (map chunkEvents (concat rounds))"

fun executing :: "event list \<Rightarrow> int" where
  "executing [] = 0"
| "executing (Started fl # evs) = executing evs + 1"
| "executing (Settled fl # evs) = executing evs - 1"

section \<open>Example workspaces\<close>

definition manifest :: "string \<Rightarrow> (string \<times> string) list \<Rightarrow> PackageJson" where
  "manifest n ds =
     \<lparr>name = n, version = ''1.0.0'', dependencies = Some (map_of ds), devDependencies = None\<rparr>"

definition posixDirname :: "string \<Rightarrow> string" where
  "posixDirname fl = rev (drop 1 (dropWhile (\<lambda>c. c \<noteq> CHR ''/'') (rev fl)))"

text \<open>
  A host with four logical CPUs, on which the commands in the directories listed in
  \<open>failing\<close> fail and every command takes the same time.
\<close>

definition workspace :: "(string \<times> PackageJson) list \<Rightarrow> string list \<Rightarrow> host" where
  "workspace manifests failing =
     \<lparr>cpus = 4, readFile = map_of manifests,
      processSpawn = (\<lambda>command args cwd.
         if cwd \<in> set failing
         then Some (Rejected \<lparr>stdout = [], stderr = ''failed'', code = 2\<rparr>) else None),
      spawnTime = (\<lambda>command args cwd. 1),
      dirname = posixDirname, resolve = (\<lambda>d. d)\<rparr>"

definition noEnv :: RunnerEnv where
  "noEnv = \<lparr>root = None, uncheck = Undefined, packages = None\<rparr>"

text \<open>C depends on B, and B depends on A.\<close>

definition chain :: "(string \<times> PackageJson) list" where
  "chain = [(''a/p'', manifest ''A'' []),
            (''b/p'', manifest ''B'' [(''A'', ''*'')]),
            (''c/p'', manifest ''C'' [(''B'', ''*'')])]"

text \<open>The same three manifests, in another directory.\<close>

definition chainElsewhere :: "(string \<times> PackageJson) list" where
  "chainElsewhere = [(''w/a/p'', manifest ''A'' []),
                     (''w/b/p'', manifest ''B'' [(''A'', ''*'')]),
                     (''w/c/p'', manifest ''C'' [(''B'', ''*'')])]"

text \<open>A and B depend on each other.\<close>

definition cycle :: "(string \<times> PackageJson) list" where
  "cycle = [(''a/p'', manifest ''A'' [(''B'', ''*'')]),
            (''b/p'', manifest ''B'' [(''A'', ''*'')])]"

text \<open>A depends on nothing; B, C and D each depend on the two others.\<close>

definition late :: "(string \<times> PackageJson) list" where
  "late = [(''a/p'', manifest ''A'' []),
           (''b/p'', manifest ''B'' [(''C'', ''*''), (''D'', ''*'')]),
           (''c/p'', manifest ''C'' [(''B'', ''*''), (''D'', ''*'')]),
           (''d/p'', manifest ''D'' [(''B'', ''*''), (''C'', ''*'')])]"

text \<open>
  A declares no dependency; the other package has the name of a member of
  \<^verbatim>\<open>Object.prototype\<close>.
\<close>

definition inheritedName :: "(string \<times> PackageJson) list" where
  "inheritedName = [(''a/p'', manifest ''A'' []),
                    (''k/p'', manifest ''constructor'' [])]"

text \<open>B depends on A; C depends on nothing.\<close>

definition fork :: "(string \<times> PackageJson) list" where
  "fork = [(''a/p'', manifest ''A'' []),
           (''b/p'', manifest ''B'' [(''A'', ''*'')]),
           (''c/p'', manifest ''C'' [])]"

text \<open>A lists itself in its \<^verbatim>\<open>dependencies\<close>.\<close>

definition selfish :: "(string \<times> PackageJson) list" where
  "selfish = [(''a/p'', manifest ''A'' [(''A'', ''*'')])]"

text \<open>A depends on B, whose manifest has no \<^verbatim>\<open>dependencies\<close>.\<close>

definition bare :: "(string \<times> PackageJson) list" where
  "bare = [(''a/p'', manifest ''A'' [(''B'', ''*'')]),
           (''b/p'', \<lparr>name = ''B'', version = ''1.0.0'', dependencies = None,
                       devDependencies = None\<rparr>)]"

section \<open>Basic facts\<close>

lemma mathRound_half: "mathRound (real n / 2) = int ((n + 1) div 2)"
  unfolding mathRound_def by (simp add: floor_eq_iff) linarith

lemma maxThreads_eq: "maxThreads h = max ((cpus h + 1) div 2) 2"
  unfolding maxThreads_def mathRound_half by (simp add: max_def)

lemma maxThreads_pos: "0 < maxThreads h"
  by (simp add: maxThreads_eq max_def)

lemma indexOf_notin: "x \<notin> set xs \<Longrightarrow> indexOf xs x = - 1"
  by (induction xs) (auto simp: Let_def)

lemma indexOf_in: "x \<in> set xs \<Longrightarrow> 0 \<le> indexOf xs x \<and> indexOf xs x < int (length xs)"
  by (induction xs) (auto simp: Let_def)

lemma splice1_indexOf_in: "x \<in> set xs \<Longrightarrow> splice1 (indexOf xs x) xs = remove1 x xs"
proof (induction xs)
  case Nil
  then show ?case by simp
next
  case (Cons y ys)
  show ?case
  proof (cases "y = x")
    case True
    then show ?thesis by (simp add: splice1_def)
  next
    case False
    with Cons.prems have mem: "x \<in> set ys" by simp
    from indexOf_in [OF mem] Cons.IH [OF mem] False show ?thesis
      by (simp add: splice1_def Let_def nat_add_distrib min_def split: if_splits)
  qed
qed

lemma splice1_last: "splice1 (- 1) xs = butlast xs"
  by (cases "xs = []") (simp_all add: splice1_def Let_def butlast_conv_take nat_diff_distrib max_def)

lemma splice1_indexOf_notin: "x \<notin> set xs \<Longrightarrow> splice1 (indexOf xs x) xs = butlast xs"
  by (simp add: indexOf_notin splice1_last)

lemma splitByChunks_Nil: "splitByChunks h c a n [] s = s"
  by (subst splitByChunks.simps) simp

lemma splitByChunks_step:
  "cs \<noteq> [] \<Longrightarrow> splitByChunks h c a n cs s =
     splitByChunks h c a n (drop (maxThreads h) cs)
       (s\<lparr>console := console s @ [Processing (processedFiles s + length (take (maxThreads h) cs)) n],
          errors := runChunk h c a (take (maxThreads h) cs) (errors s),
          processedFiles := processedFiles s + length (take (maxThreads h) cs),
          dispatched := addChunk (take (maxThreads h) cs) (dispatched s)\<rparr>)"
  by (subst splitByChunks.simps) (simp add: Let_def)

lemma splitByChunks_frame:
  "packagesCopy (splitByChunks h c a n cs s) = packagesCopy s
   \<and> files (splitByChunks h c a n cs s) = files s
   \<and> deps (splitByChunks h c a n cs s) = deps s"
  by (induction h c a n cs s rule: splitByChunks.induct)
     (subst splitByChunks.simps, subst splitByChunks.simps, subst splitByChunks.simps, simp add: Let_def)

lemma beforeAwait_cases:
  "beforeAwait h fl =
     (case readFile h fl of
        None \<Rightarrow> Inl \<lparr>file' = dirname h fl, error = ManifestError\<rparr>
      | Some packageInfo \<Rightarrow> Inr (dirname h fl, resolve h (dirname h fl)))"
  by (simp add: beforeAwait_def Let_def)

lemma runChunk_appends: "runChunk h c a chunk es = es @ runChunk h c a chunk []"
  by (simp add: runChunk_def Let_def)

lemma set_started:
  "set (concat (map (case_sum (\<lambda>x. [x]) (\<lambda>spawned. [])) (map f xs)))
     \<union> (\<Union>spawned \<in> set (concat (map (case_sum (\<lambda>x. []) (\<lambda>spawned. [spawned])) (map f xs))).
          g spawned)
   = (\<Union>x \<in> set xs. case f x of Inl y \<Rightarrow> {y} | Inr spawned \<Rightarrow> g spawned)"
  by (induction xs) (auto split: sum.splits)

lemma failure_iff:
  "(x \<in> (case beforeAwait h fl of
            Inl y \<Rightarrow> {y}
          | Inr spawned \<Rightarrow> set (afterAwait h c a spawned)))
     = failure h c a fl x"
  by (cases x; cases "readFile h fl")
     (auto simp: beforeAwait_cases afterAwait_def failure_def split: option.splits)

text \<open>The entries that a chunk adds are the failures of its files.\<close>

lemma set_runChunk:
  "set (runChunk h c a chunk []) = {x. \<exists>fl \<in> set chunk. failure h c a fl x}"
proof -
  have "set (runChunk h c a chunk [])
          = (\<Union>fl \<in> set chunk. case beforeAwait h fl of
                Inl y \<Rightarrow> {y}
              | Inr spawned \<Rightarrow> set (afterAwait h c a spawned))"
    using set_started [of "beforeAwait h" chunk "\<lambda>spawned. set (afterAwait h c a spawned)"]
    by (simp add: runChunk_def Let_def)
  also have "\<dots> = {x. \<exists>fl \<in> set chunk. failure h c a fl x}"
    using failure_iff [where h = h and c = c and a = a] by blast
  finally show ?thesis .
qed

lemma splitByChunks_errors:
  "set (errors (splitByChunks h c a n cs s))
     = set (errors s) \<union> {x. \<exists>fl \<in> set cs. failure h c a fl x}"
proof (induction h c a n cs s rule: splitByChunks.induct)
  case (1 h c a n cs s)
  show ?case
  proof (cases "cs = []")
    case True
    then show ?thesis by (simp add: splitByChunks_Nil)
  next
    case False
    have "set cs = set (take (maxThreads h) cs) \<union> set (drop (maxThreads h) cs)"
      by (metis append_take_drop_id set_append)
    then have parts: "{x. \<exists>fl \<in> set cs. failure h c a fl x}
        = {x. \<exists>fl \<in> set (take (maxThreads h) cs). failure h c a fl x}
          \<union> {x. \<exists>fl \<in> set (drop (maxThreads h) cs). failure h c a fl x}"
      by auto
    have "set (runChunk h c a (take (maxThreads h) cs) (errors s))
            = set (errors s) \<union> {x. \<exists>fl \<in> set (take (maxThreads h) cs). failure h c a fl x}"
      using runChunk_appends [of h c a "take (maxThreads h) cs" "errors s"]
      by (simp add: set_runChunk)
    with "1.IH" [OF _ refl] False show ?thesis
      unfolding parts by (simp add: splitByChunks_step Un_assoc)
  qed
qed

lemma splitByChunks_dispatched:
  "dispatched s \<noteq> [] \<Longrightarrow>
   \<exists>cks. dispatched (splitByChunks h c a n cs s) = butlast (dispatched s) @ [last (dispatched s) @ cks]
        \<and> concat cks = cs
        \<and> (\<forall>ck \<in> set cks. ck \<noteq> [] \<and> length ck \<le> maxThreads h)
        \<and> (\<forall>ck \<in> set (butlast cks). length ck = maxThreads h)"
proof (induction h c a n cs s rule: splitByChunks.induct)
  case (1 h c a n cs s)
  show ?case
  proof (cases "cs = []")
    case True
    with "1.prems" show ?thesis
      by (intro exI [of _ "[]"]) (simp add: splitByChunks_Nil)
  next
    case False
    let ?chunk = "take (maxThreads h) cs"
    let ?s' = "s\<lparr>console := console s @ [Processing (processedFiles s + length ?chunk) n],
          errors := runChunk h c a ?chunk (errors s),
          processedFiles := processedFiles s + length ?chunk,
          dispatched := addChunk ?chunk (dispatched s)\<rparr>"
    have d': "dispatched ?s' = butlast (dispatched s) @ [last (dispatched s) @ [?chunk]]"
      using "1.prems" by (simp add: addChunk_def)
    then have ne: "dispatched ?s' \<noteq> []" by simp
    from "1.IH" [OF _ refl ne] False
    obtain cks where cks: "dispatched (splitByChunks h c a n (drop (maxThreads h) cs) ?s')
          = butlast (dispatched ?s') @ [last (dispatched ?s') @ cks]"
       "concat cks = drop (maxThreads h) cs"
       "\<forall>ck \<in> set cks. ck \<noteq> [] \<and> length ck \<le> maxThreads h"
       "\<forall>ck \<in> set (butlast cks). length ck = maxThreads h"
      by auto
    have full: "cks \<noteq> [] \<Longrightarrow> length ?chunk = maxThreads h"
    proof -
      assume "cks \<noteq> []"
      with cks(2,3) have "drop (maxThreads h) cs \<noteq> []"
        by (cases cks) auto
      then show ?thesis by simp
    qed
    have "dispatched (splitByChunks h c a n cs s)
            = butlast (dispatched s) @ [last (dispatched s) @ (?chunk # cks)]"
      using False cks(1) d' by (simp add: splitByChunks_step butlast_append)
    moreover have "concat (?chunk # cks) = cs"
      using cks(2) by simp
    moreover have "\<forall>ck \<in> set (?chunk # cks). ck \<noteq> [] \<and> length ck \<le> maxThreads h"
      using cks(3) False maxThreads_pos [of h] by auto
    moreover have "\<forall>ck \<in> set (butlast (?chunk # cks)). length ck = maxThreads h"
      using cks(4) full by auto
    ultimately show ?thesis by blast
  qed
qed

subsection \<open>The loop, case by case\<close>

lemma schedulerLoop_deadlock:
  "emptyPackages unc s = [] \<Longrightarrow> packagesCopy s \<noteq> [] \<Longrightarrow>
   schedulerLoop h c a n unc s =
     (True, s\<lparr>console := console s @ [DeadlockFound (map (getProperty (files s)) (packagesCopy s)) (deps s)]\<rparr>)"
  by (subst schedulerLoop.simps) simp

lemma schedulerLoop_exempt:
  "schedulerLoop h c a n ExemptAll s = (False, dispatchFrontier h c a n ExemptAll s)"
  by (subst schedulerLoop.simps) (auto simp: emptyPackages_def)

lemma schedulerLoop_next:
  "\<not> (emptyPackages unc s = [] \<and> packagesCopy s \<noteq> []) \<Longrightarrow> unc \<noteq> ExemptAll \<Longrightarrow>
   packagesCopy (retireFrontier h c a n unc s) \<noteq> [] \<Longrightarrow>
   schedulerLoop h c a n unc s = schedulerLoop h c a n unc (retireFrontier h c a n unc s)"
  by (subst schedulerLoop.simps) auto

lemma schedulerLoop_last:
  "\<not> (emptyPackages unc s = [] \<and> packagesCopy s \<noteq> []) \<Longrightarrow> unc \<noteq> ExemptAll \<Longrightarrow>
   packagesCopy (retireFrontier h c a n unc s) = [] \<Longrightarrow>
   schedulerLoop h c a n unc s = (False, retireFrontier h c a n unc s)"
  by (subst schedulerLoop.simps) auto

text \<open>
  A property kept by the dispatch of a round, by retiring and by a console line is kept
  by the loop.
\<close>

lemma schedulerLoop_invariant:
  assumes start: "I s"
    and dispatch: "\<And>t. I t \<Longrightarrow> I (dispatchFrontier h c a n unc t)"
    and retire: "\<And>t es. I t \<Longrightarrow> I (retireAll es t)"
    and line: "\<And>t m. I t \<Longrightarrow> I (t\<lparr>console := console t @ [m]\<rparr>)"
  shows "I (snd (schedulerLoop h c a n unc s))"
  using assms
proof (induction h c a n unc s rule: schedulerLoop.induct)
  case (1 h c a n unc s)
  note inv = "1.prems"(1) and dispatch = "1.prems"(2) and retire = "1.prems"(3)
    and line = "1.prems"(4)
  show ?case
  proof (cases "emptyPackages unc s = [] \<and> packagesCopy s \<noteq> []")
    case True
    then show ?thesis
      using line [OF inv] by (simp add: schedulerLoop_deadlock)
  next
    case live: False
    show ?thesis
    proof (cases "unc = ExemptAll")
      case True
      show ?thesis
        using dispatch [OF inv] unfolding True by (simp add: schedulerLoop_exempt)
    next
      case False
      have retired: "I (retireFrontier h c a n unc s)"
        unfolding retireFrontier_def by (rule retire [OF dispatch [OF inv]])
      show ?thesis
      proof (cases "packagesCopy (retireFrontier h c a n unc s) = []")
        case True
        with live False retired show ?thesis
          by (simp add: schedulerLoop_last)
      next
        case more: False
        from live have "\<not> (length (emptyPackages unc s) = 0 \<and> 0 < length (packagesCopy s))"
          by simp
        from "1.IH" [OF this False _ retired dispatch retire line] more
        have "I (snd (schedulerLoop h c a n unc (retireFrontier h c a n unc s)))"
          by simp
        with live False more show ?thesis
          by (simp add: schedulerLoop_next)
      qed
    qed
  qed
qed


subsection \<open>What a round changes\<close>

lemma dispatchFrontier_frame:
  "packagesCopy (dispatchFrontier h c a n unc s) = packagesCopy s"
  "files (dispatchFrontier h c a n unc s) = files s"
  "deps (dispatchFrontier h c a n unc s) = deps s"
  by (simp_all add: dispatchFrontier_def splitByChunks_frame)

lemma dispatchFrontier_errors:
  "set (errors (dispatchFrontier h c a n unc s))
     = set (errors s) \<union> {x. \<exists>fl \<in> set (emptyPackages unc s). failure h c a fl x}"
  by (simp add: dispatchFrontier_def splitByChunks_errors)

lemma dispatchFrontier_dispatched:
  "\<exists>cks. dispatched (dispatchFrontier h c a n unc s) = dispatched s @ [cks]
        \<and> concat cks = emptyPackages unc s
        \<and> (\<forall>ck \<in> set cks. ck \<noteq> [] \<and> length ck \<le> maxThreads h)
        \<and> (\<forall>ck \<in> set (butlast cks). length ck = maxThreads h)"
  using splitByChunks_dispatched
    [of "s\<lparr>dispatched := dispatched s @ [[]]\<rparr>" h c a n "emptyPackages unc s"]
  by (simp add: dispatchFrontier_def)

lemma retirePackage_frame:
  "dispatched (retirePackage s fl) = dispatched s"
  "errors (retirePackage s fl) = errors s"
  "console (retirePackage s fl) = console s"
  "processedFiles (retirePackage s fl) = processedFiles s"
  "files (retirePackage s fl) = files s"
  by (simp_all add: retirePackage_def Let_def)

lemma retireAll_frame:
  "dispatched (retireAll es s) = dispatched s
   \<and> errors (retireAll es s) = errors s
   \<and> console (retireAll es s) = console s
   \<and> processedFiles (retireAll es s) = processedFiles s
   \<and> files (retireAll es s) = files s"
  unfolding retireAll_def by (induction es arbitrary: s) (simp_all add: retirePackage_frame)

subsection \<open>The run as a whole\<close>

lemma runPackageCommand_throws:
  "scanAllDependencies h (processUncheck (uncheck env)) pkgs = Inl e \<Longrightarrow>
   runPackageCommand h env pkgs c a = (Threw e, initialState pkgs)"
  by (simp add: runPackageCommand_def)

lemma runPackageCommand_returns:
  assumes "scanAllDependencies h (processUncheck (uncheck env)) pkgs = Inr fd"
    and "schedulerLoop h c a (length pkgs) (processUncheck (uncheck env))
           ((initialState pkgs)\<lparr>files := fst fd, deps := snd fd\<rparr>) = (b, t)"
  shows "runPackageCommand h env pkgs c a =
           (if b then (Returned (RetCode 1), t)
            else if errors t \<noteq> []
              then (Returned (RetErrors (errors t)),
                    t\<lparr>console := console t @ [ErrorsEncountered (length (errors t))]\<rparr>)
              else (Returned RetFalse, t\<lparr>console := console t @ [Completed]\<rparr>))"
  using assms by (simp add: runPackageCommand_def Let_def)

lemma runPackageCommand_final:
  fixes c :: string and a :: "string list"
  assumes "scanAllDependencies h (processUncheck (uncheck env)) pkgs = Inr fd"
  defines "t \<equiv> snd (schedulerLoop h c a (length pkgs) (processUncheck (uncheck env))
                      ((initialState pkgs)\<lparr>files := fst fd, deps := snd fd\<rparr>))"
  shows "dispatched (snd (runPackageCommand h env pkgs c a)) = dispatched t
       \<and> errors (snd (runPackageCommand h env pkgs c a)) = errors t
       \<and> packagesCopy (snd (runPackageCommand h env pkgs c a)) = packagesCopy t
       \<and> files (snd (runPackageCommand h env pkgs c a)) = files t
       \<and> deps (snd (runPackageCommand h env pkgs c a)) = deps t
       \<and> (\<exists>r. fst (runPackageCommand h env pkgs c a) = Returned r)"
proof -
  obtain b t' where loop: "schedulerLoop h c a (length pkgs) (processUncheck (uncheck env))
      ((initialState pkgs)\<lparr>files := fst fd, deps := snd fd\<rparr>) = (b, t')"
    by (cases "schedulerLoop h c a (length pkgs) (processUncheck (uncheck env))
      ((initialState pkgs)\<lparr>files := fst fd, deps := snd fd\<rparr>)")
  then have "t = t'" by (simp add: t_def)
  then show ?thesis
    by (simp add: runPackageCommand_returns [OF assms(1) loop])
qed

subsection \<open>The failures recorded\<close>

lemma schedulerLoop_errors:
  assumes "set (errors s)
             = {x. \<exists>fl \<in> set (concat (concat (dispatched s))). failure h c a fl x}"
  shows "set (errors (snd (schedulerLoop h c a n unc s)))
           = {x. \<exists>fl \<in> set (concat (concat (dispatched (snd (schedulerLoop h c a n unc s))))).
                   failure h c a fl x}"
proof (rule schedulerLoop_invariant
    [where I = "\<lambda>t. set (errors t)
       = {x. \<exists>fl \<in> set (concat (concat (dispatched t))). failure h c a fl x}"])
  show "set (errors s) = {x. \<exists>fl \<in> set (concat (concat (dispatched s))). failure h c a fl x}"
    by (rule assms)
next
  fix t :: state
  assume inv: "set (errors t)
    = {x. \<exists>fl \<in> set (concat (concat (dispatched t))). failure h c a fl x}"
  from dispatchFrontier_dispatched [of h c a n unc t]
  obtain cks where cks: "dispatched (dispatchFrontier h c a n unc t) = dispatched t @ [cks]"
    "concat cks = emptyPackages unc t"
    by blast
  have "set (concat (concat (dispatched (dispatchFrontier h c a n unc t))))
          = set (concat (concat (dispatched t))) \<union> set (emptyPackages unc t)"
    using cks(2) by (simp add: cks(1))
  then show "set (errors (dispatchFrontier h c a n unc t))
          = {x. \<exists>fl \<in> set (concat (concat (dispatched (dispatchFrontier h c a n unc t)))).
                  failure h c a fl x}"
    unfolding dispatchFrontier_errors inv by blast
next
  fix t :: state and es
  assume "set (errors t)
    = {x. \<exists>fl \<in> set (concat (concat (dispatched t))). failure h c a fl x}"
  then show "set (errors (retireAll es t))
    = {x. \<exists>fl \<in> set (concat (concat (dispatched (retireAll es t)))). failure h c a fl x}"
    by (simp add: retireAll_frame)
next
  fix t :: state and m
  assume "set (errors t)
    = {x. \<exists>fl \<in> set (concat (concat (dispatched t))). failure h c a fl x}"
  then show "set (errors (t\<lparr>console := console t @ [m]\<rparr>))
    = {x. \<exists>fl \<in> set (concat (concat (dispatched (t\<lparr>console := console t @ [m]\<rparr>)))).
            failure h c a fl x}"
    by simp
qed

subsection \<open>The outcome of the commands does not reach the schedule\<close>

lemma maxThreads_spawn: "maxThreads (h\<lparr>processSpawn := sp\<rparr>) = maxThreads h"
  by (simp add: maxThreads_def)

lemma emptyPackages_errors: "emptyPackages unc (s\<lparr>errors := e\<rparr>) = emptyPackages unc s"
proof -
  have "isEmptyPackage (s\<lparr>errors := e\<rparr>) = isEmptyPackage s"
    by (simp add: fun_eq_iff isEmptyPackage_def)
  then show ?thesis by (simp add: emptyPackages_def)
qed

lemma splitByChunks_spawn:
  "\<exists>e'. splitByChunks (h\<lparr>processSpawn := sp\<rparr>) c a n cs (s\<lparr>errors := e\<rparr>)
          = (splitByChunks h c a n cs s)\<lparr>errors := e'\<rparr>"
proof (induction h c a n cs s arbitrary: e rule: splitByChunks.induct)
  case (1 h c a n cs s)
  show ?case
  proof (cases "cs = []")
    case True
    then show ?thesis
      by (simp add: splitByChunks_Nil) blast
  next
    case False
    let ?h = "h\<lparr>processSpawn := sp\<rparr>"
    let ?chunk = "take (maxThreads h) cs"
    let ?s' = "s\<lparr>console := console s @ [Processing (processedFiles s + length ?chunk) n],
          errors := runChunk h c a ?chunk (errors s),
          processedFiles := processedFiles s + length ?chunk,
          dispatched := addChunk ?chunk (dispatched s)\<rparr>"
    have "splitByChunks ?h c a n cs (s\<lparr>errors := e\<rparr>)
            = splitByChunks ?h c a n (drop (maxThreads h) cs)
                (?s'\<lparr>errors := runChunk ?h c a ?chunk e\<rparr>)"
      unfolding splitByChunks_step [OF False, of ?h] by (cases s) (simp add: maxThreads_spawn)
    moreover from "1.IH" [OF _ refl, of "runChunk ?h c a ?chunk e"] False
    obtain e' where "splitByChunks ?h c a n (drop (maxThreads h) cs)
                (?s'\<lparr>errors := runChunk ?h c a ?chunk e\<rparr>)
        = (splitByChunks h c a n (drop (maxThreads h) cs) ?s')\<lparr>errors := e'\<rparr>"
      by auto
    ultimately have "splitByChunks ?h c a n cs (s\<lparr>errors := e\<rparr>)
        = (splitByChunks h c a n cs s)\<lparr>errors := e'\<rparr>"
      unfolding splitByChunks_step [OF False, of h] by simp
    then show ?thesis by blast
  qed
qed

lemma retireAll_errors: "retireAll es (s\<lparr>errors := e\<rparr>) = (retireAll es s)\<lparr>errors := e\<rparr>"
  unfolding retireAll_def
proof (induction es arbitrary: s)
  case Nil
  then show ?case by simp
next
  case (Cons fl es)
  have "retirePackage (s\<lparr>errors := e\<rparr>) fl = (retirePackage s fl)\<lparr>errors := e\<rparr>"
    by (cases s) (simp add: retirePackage_def Let_def)
  then show ?case by (simp add: Cons.IH)
qed

lemma dispatchFrontier_spawn:
  "\<exists>e'. dispatchFrontier (h\<lparr>processSpawn := sp\<rparr>) c a n unc (s\<lparr>errors := e\<rparr>)
          = (dispatchFrontier h c a n unc s)\<lparr>errors := e'\<rparr>"
proof -
  have "(s\<lparr>errors := e\<rparr>)\<lparr>dispatched := dispatched (s\<lparr>errors := e\<rparr>) @ [[]]\<rparr>
          = (s\<lparr>dispatched := dispatched s @ [[]]\<rparr>)\<lparr>errors := e\<rparr>"
    by (cases s) simp
  then show ?thesis
    unfolding dispatchFrontier_def emptyPackages_errors
    by (simp only: splitByChunks_spawn)
qed

lemma retireFrontier_spawn:
  "\<exists>e'. retireFrontier (h\<lparr>processSpawn := sp\<rparr>) c a n unc (s\<lparr>errors := e\<rparr>)
          = (retireFrontier h c a n unc s)\<lparr>errors := e'\<rparr>"
proof -
  from dispatchFrontier_spawn [where h = h and sp = sp and s = s and e = e]
  obtain e' where "dispatchFrontier (h\<lparr>processSpawn := sp\<rparr>) c a n unc (s\<lparr>errors := e\<rparr>)
          = (dispatchFrontier h c a n unc s)\<lparr>errors := e'\<rparr>" ..
  then have "retireFrontier (h\<lparr>processSpawn := sp\<rparr>) c a n unc (s\<lparr>errors := e\<rparr>)
          = (retireFrontier h c a n unc s)\<lparr>errors := e'\<rparr>"
    by (simp only: retireFrontier_def emptyPackages_errors retireAll_errors)
  then show ?thesis by blast
qed

lemma schedulerLoop_spawn:
  "\<exists>e'. schedulerLoop (h\<lparr>processSpawn := sp\<rparr>) c a n unc (s\<lparr>errors := e\<rparr>)
          = (fst (schedulerLoop h c a n unc s), (snd (schedulerLoop h c a n unc s))\<lparr>errors := e'\<rparr>)"
proof (induction h c a n unc s arbitrary: e rule: schedulerLoop.induct)
  case (1 h c a n unc s)
  let ?h = "h\<lparr>processSpawn := sp\<rparr>"
  let ?s = "s\<lparr>errors := e\<rparr>"
  have front: "emptyPackages unc ?s = emptyPackages unc s"
    by (rule emptyPackages_errors)
  show ?case
  proof (cases "emptyPackages unc s = [] \<and> packagesCopy s \<noteq> []")
    case True
    have "schedulerLoop ?h c a n unc ?s
            = (True, ?s\<lparr>console := console ?s
                 @ [DeadlockFound (map (getProperty (files ?s)) (packagesCopy ?s)) (deps ?s)]\<rparr>)"
      using True by (intro schedulerLoop_deadlock) (simp_all add: front)
    also have "\<dots> = (fst (schedulerLoop h c a n unc s),
                      (snd (schedulerLoop h c a n unc s))\<lparr>errors := e\<rparr>)"
      using True by (cases s) (simp add: schedulerLoop_deadlock)
    finally show ?thesis by blast
  next
    case live: False
    then have live': "\<not> (emptyPackages unc ?s = [] \<and> packagesCopy ?s \<noteq> [])"
      by (simp add: front)
    show ?thesis
    proof (cases "unc = ExemptAll")
      case True
      from dispatchFrontier_spawn [where h = h and sp = sp and s = s and e = e]
      obtain e0 where "dispatchFrontier ?h c a n ExemptAll ?s
                         = (dispatchFrontier h c a n ExemptAll s)\<lparr>errors := e0\<rparr>" ..
      then have "schedulerLoop ?h c a n ExemptAll ?s
              = (fst (schedulerLoop h c a n ExemptAll s),
                 (snd (schedulerLoop h c a n ExemptAll s))\<lparr>errors := e0\<rparr>)"
        by (simp only: schedulerLoop_exempt fst_conv snd_conv)
      then show ?thesis
        unfolding True by blast
    next
      case False
      from retireFrontier_spawn [where h = h and sp = sp and s = s and e = e]
      obtain e1 where e1: "retireFrontier ?h c a n unc ?s
                             = (retireFrontier h c a n unc s)\<lparr>errors := e1\<rparr>" ..
      show ?thesis
      proof (cases "packagesCopy (retireFrontier h c a n unc s) = []")
        case True
        then have last': "packagesCopy (retireFrontier ?h c a n unc ?s) = []"
          by (simp add: e1)
        have "schedulerLoop ?h c a n unc ?s
                = (fst (schedulerLoop h c a n unc s),
                   (snd (schedulerLoop h c a n unc s))\<lparr>errors := e1\<rparr>)"
          by (simp only: schedulerLoop_last [OF live' False last']
                schedulerLoop_last [OF live False True] e1 fst_conv snd_conv)
        then show ?thesis by blast
      next
        case more: False
        then have more': "packagesCopy (retireFrontier ?h c a n unc ?s) \<noteq> []"
          by (simp add: e1)
        from live have "\<not> (length (emptyPackages unc s) = 0 \<and> 0 < length (packagesCopy s))"
          by simp
        from "1.IH" [OF this False, of e1] more
        obtain e' where "schedulerLoop ?h c a n unc ((retireFrontier h c a n unc s)\<lparr>errors := e1\<rparr>)
           = (fst (schedulerLoop h c a n unc (retireFrontier h c a n unc s)),
              (snd (schedulerLoop h c a n unc (retireFrontier h c a n unc s)))\<lparr>errors := e'\<rparr>)"
          by auto
        then have "schedulerLoop ?h c a n unc ?s
                = (fst (schedulerLoop h c a n unc s),
                   (snd (schedulerLoop h c a n unc s))\<lparr>errors := e'\<rparr>)"
          by (simp only: schedulerLoop_next [OF live' False more']
                schedulerLoop_next [OF live False more] e1)
        then show ?thesis by blast
      qed
    qed
  qed
qed

lemma scanFiles_spawn:
  "scanFiles (h\<lparr>processSpawn := sp\<rparr>) ns cur fs dps = scanFiles h ns cur fs dps"
proof (induction fs arbitrary: dps)
  case Nil
  then show ?case by simp
next
  case (Cons fl fs)
  have "readFile (h\<lparr>processSpawn := sp\<rparr>) = readFile h"
    by simp
  then show ?case
    by (simp only: scanFiles.simps Cons.IH)
qed

lemma scanDependencies_spawn:
  "scanDependencies (h\<lparr>processSpawn := sp\<rparr>) ns pkgs cs fd = scanDependencies h ns pkgs cs fd"
proof (induction cs arbitrary: fd)
  case Nil
  then show ?case by simp
next
  case (Cons cf cs)
  have "readFile (h\<lparr>processSpawn := sp\<rparr>) = readFile h"
    by simp
  then show ?case
    by (simp only: scanDependencies.simps scanFiles_spawn Cons.IH)
qed

lemma scanAllDependencies_spawn:
  "scanAllDependencies (h\<lparr>processSpawn := sp\<rparr>) unc pkgs = scanAllDependencies h unc pkgs"
  by (simp add: scanAllDependencies_def scanDependencies_spawn split: uncheckList.splits)


lemma runPackageCommand_deadlock_iff:
  assumes "scanAllDependencies h (processUncheck (uncheck env)) pkgs = Inr fd"
  shows "(fst (runPackageCommand h env pkgs c a) = Returned (RetCode 1))
           = fst (schedulerLoop h c a (length pkgs) (processUncheck (uncheck env))
                    ((initialState pkgs)\<lparr>files := fst fd, deps := snd fd\<rparr>))"
proof -
  obtain b t where loop: "schedulerLoop h c a (length pkgs) (processUncheck (uncheck env))
      ((initialState pkgs)\<lparr>files := fst fd, deps := snd fd\<rparr>) = (b, t)"
    by (cases "schedulerLoop h c a (length pkgs) (processUncheck (uncheck env))
      ((initialState pkgs)\<lparr>files := fst fd, deps := snd fd\<rparr>)")
  show ?thesis
    by (simp add: runPackageCommand_returns [OF assms loop] loop)
qed

lemma runPackageCommand_spawn:
  "dispatched (snd (runPackageCommand (h\<lparr>processSpawn := sp\<rparr>) env pkgs c a))
     = dispatched (snd (runPackageCommand h env pkgs c a))
   \<and> (fst (runPackageCommand (h\<lparr>processSpawn := sp\<rparr>) env pkgs c a) = Returned (RetCode 1))
     = (fst (runPackageCommand h env pkgs c a) = Returned (RetCode 1))"
proof (cases "scanAllDependencies h (processUncheck (uncheck env)) pkgs")
  case (Inl e)
  then show ?thesis
    by (simp add: runPackageCommand_throws scanAllDependencies_spawn)
next
  case (Inr fd)
  let ?h = "h\<lparr>processSpawn := sp\<rparr>"
  let ?s = "(initialState pkgs)\<lparr>files := fst fd, deps := snd fd\<rparr>"
  let ?unc = "processUncheck (uncheck env)"
  have scan': "scanAllDependencies ?h ?unc pkgs = Inr fd"
    using Inr by (simp add: scanAllDependencies_spawn)
  have "?s\<lparr>errors := []\<rparr> = ?s"
    by (simp add: initialState_def)
  with schedulerLoop_spawn
    [where h = h and sp = sp and c = c and a = a and n = "length pkgs" and unc = ?unc
       and s = ?s and e = "[]"]
  obtain e' where loop: "schedulerLoop ?h c a (length pkgs) ?unc ?s
      = (fst (schedulerLoop h c a (length pkgs) ?unc ?s),
         (snd (schedulerLoop h c a (length pkgs) ?unc ?s))\<lparr>errors := e'\<rparr>)"
    by auto
  have "dispatched (snd (runPackageCommand ?h env pkgs c a))
          = dispatched (snd (runPackageCommand h env pkgs c a))"
    using runPackageCommand_final [OF Inr, of c a] runPackageCommand_final [OF scan', of c a]
    by (simp add: loop)
  moreover have "(fst (runPackageCommand ?h env pkgs c a) = Returned (RetCode 1))
          = (fst (runPackageCommand h env pkgs c a) = Returned (RetCode 1))"
    by (simp only: runPackageCommand_deadlock_iff [OF Inr]
          runPackageCommand_deadlock_iff [OF scan'] loop fst_conv)
  ultimately show ?thesis by simp
qed

lemma runPackageCommand_errors:
  "set (errors (snd (runPackageCommand h env pkgs c a)))
     = {x. \<exists>fl \<in> set (concat (concat (dispatched (snd (runPackageCommand h env pkgs c a))))).
             failure h c a fl x}"
proof (cases "scanAllDependencies h (processUncheck (uncheck env)) pkgs")
  case (Inl e)
  then show ?thesis
    by (simp add: runPackageCommand_throws initialState_def)
next
  case (Inr fd)
  let ?s = "(initialState pkgs)\<lparr>files := fst fd, deps := snd fd\<rparr>"
  have "set (errors ?s)
          = {x. \<exists>fl \<in> set (concat (concat (dispatched ?s))). failure h c a fl x}"
    by (simp add: initialState_def)
  from schedulerLoop_errors [OF this] runPackageCommand_final [OF Inr, of c a]
  show ?thesis by simp
qed

lemma runPackageCommand_throws_iff:
  "(fst (runPackageCommand h env pkgs c a) = Threw e)
     = (scanAllDependencies h (processUncheck (uncheck env)) pkgs = Inl e)"
proof (cases "scanAllDependencies h (processUncheck (uncheck env)) pkgs")
  case (Inl e')
  then show ?thesis
    by (simp add: runPackageCommand_throws)
next
  case (Inr fd)
  with runPackageCommand_final [OF Inr, of c a] show ?thesis
    by auto
qed

lemmas evaluate =
  runPackageCommand_def cliMain_def processUncheck_def scanAllDependencies_def initialState_def
  schedulerLoop.simps dispatchFrontier_def retireFrontier_def splitByChunks.simps
  emptyPackages_def isEmptyPackage_def propertyKey_def getProperty_def setProperty_def
  objectPrototype_def retireAll_def retirePackage_def splice1_def indexOfKey_def Let_def
  addChunk_def runChunk_def beforeAwait_def afterAwait_def executePackageCommand_def
  maxThreads_eq workspace_def manifest_def posixDirname_def noEnv_def
  unresolved_def builtDeps_def

section \<open>The exit code\<close>

lemma cliMain_exit_code:
  "cliMain h env (Some c) a pkgs
     = (if fst (runPackageCommand h env pkgs c a) = Returned RetFalse
           \<or> (\<exists>e. fst (runPackageCommand h env pkgs c a) = Threw e)
        then 1 else 0)"
proof (cases "scanAllDependencies h (processUncheck (uncheck env)) pkgs")
  case (Inl e)
  then show ?thesis
    by (simp add: cliMain_def runPackageCommand_throws)
next
  case (Inr fd)
  obtain b t where loop: "schedulerLoop h c a (length pkgs) (processUncheck (uncheck env))
      ((initialState pkgs)\<lparr>files := fst fd, deps := snd fd\<rparr>) = (b, t)"
    by (cases "schedulerLoop h c a (length pkgs) (processUncheck (uncheck env))
      ((initialState pkgs)\<lparr>files := fst fd, deps := snd fd\<rparr>)")
  show ?thesis
    by (simp add: cliMain_def runPackageCommand_returns [OF Inr loop])
qed

text \<open>
  C1. The process should exit with code 0 when the run reports no failure and no deadlock,
  and with a non-zero code otherwise. The command line tests \<^verbatim>\<open>!result\<close>, and
  \<^verbatim>\<open>runPackageCommand\<close> returns \<^verbatim>\<open>false\<close> when nothing failed: on the workspace \<open>chain\<close>,
  where every command succeeds, the exit code is 1; on the workspace \<open>cycle\<close>, which
  deadlocks, it is 0; and on \<open>chain\<close> with a failing command for A it is 0.
\<close>

theorem cli_exit_code_inverted:
  "cliMain (workspace chain []) noEnv (Some ''yarn'') [''build''] [''a/p'', ''b/p'', ''c/p''] = 1
   \<and> cliMain (workspace cycle []) noEnv (Some ''yarn'') [''build''] [''a/p'', ''b/p''] = 0
   \<and> cliMain (workspace chain [''a'']) noEnv (Some ''yarn'') [''build'']
         [''a/p'', ''b/p'', ''c/p''] = 0"
  by (simp add: evaluate chain_def cycle_def)

section \<open>Rounds and dependencies\<close>

text \<open>
  C2. On an acyclic graph every package should be dispatched in a later round than each of
  its dependencies. In the workspace \<open>chain\<close> the scan finds that B waits for A and C for
  B; the run ends without a deadlock and has two rounds, and the second round dispatches B
  and C together, in one chunk.
\<close>

theorem chain_dispatches_dependent_with_dependency:
  "unresolved (builtDeps (workspace chain []) (processUncheck (uncheck noEnv))
                 [''a/p'', ''b/p'', ''c/p'']) ''B'' = [''A'']
   \<and> unresolved (builtDeps (workspace chain []) (processUncheck (uncheck noEnv))
                   [''a/p'', ''b/p'', ''c/p'']) ''C'' = [''B'']
   \<and> fst (runPackageCommand (workspace chain []) noEnv [''a/p'', ''b/p'', ''c/p'']
            ''yarn'' [''build'']) = Returned RetFalse
   \<and> dispatched (snd (runPackageCommand (workspace chain []) noEnv [''a/p'', ''b/p'', ''c/p'']
                        ''yarn'' [''build'']))
       = [[[''a/p'']], [[''b/p'', ''c/p'']]]"
  by (simp add: evaluate chain_def)

section \<open>Failures of items\<close>

text \<open>
  The entries of \<^verbatim>\<open>errors\<close> at the end of a run are the failures of the files
  dispatched (lemma \<open>runPackageCommand_errors\<close>); with other outcomes of the commands the
  same files are dispatched in the same rounds and chunks and a deadlock is found in the
  same cases (lemma \<open>runPackageCommand_spawn\<close>); and the run throws only what the scan
  throws (lemma \<open>runPackageCommand_throws_iff\<close>). Within a chunk, a manifest that cannot
  be read is recorded before the failure of a command that comes earlier in the chunk.
\<close>

lemma manifest_failure_is_recorded_first:
  "errors (snd (runPackageCommand (workspace fork [''a'']) (noEnv\<lparr>uncheck := Str ''*''\<rparr>)
                  [''a/p'', ''m/p''] ''yarn'' [''build'']))
     = [\<lparr>file' = ''m'', error = ManifestError\<rparr>,
        \<lparr>file' = ''a'', error = Rejected \<lparr>stdout = [], stderr = ''failed'', code = 2\<rparr>\<rparr>]"
  by (simp add: evaluate fork_def)

text \<open>
  C6. A dependent of a failed package should still run, in a later round than the failed
  package. In the workspace \<open>chain\<close> with the command of B failing, the failure of B is
  recorded with its directory and its error, nothing is thrown and the run goes on; but
  C, which waits for B alone, is dispatched in the round of B, in the same chunk.
\<close>

theorem failed_package_runs_with_its_dependent:
  "unresolved (builtDeps (workspace chain [''b'']) (processUncheck (uncheck noEnv))
                 [''a/p'', ''b/p'', ''c/p'']) ''C'' = [''B'']
   \<and> fst (runPackageCommand (workspace chain [''b'']) noEnv [''a/p'', ''b/p'', ''c/p'']
            ''yarn'' [''build''])
       = Returned (RetErrors
           [\<lparr>file' = ''b'', error = Rejected \<lparr>stdout = [], stderr = ''failed'', code = 2\<rparr>\<rparr>])
   \<and> dispatched (snd (runPackageCommand (workspace chain [''b'']) noEnv
                         [''a/p'', ''b/p'', ''c/p''] ''yarn'' [''build'']))
       = [[[''a/p'']], [[''b/p'', ''c/p'']]]"
  by (simp add: evaluate chain_def)

section \<open>Retiring a package\<close>

lemma retirePackage_deps:
  assumes "files s fl = Some p" and "deps s q = Some ds" and "q \<noteq> p"
  shows "deps (retirePackage s fl) q
           = Some (if p \<in> set ds then remove1 p ds else butlast ds)"
  using assms
  by (simp add: retirePackage_def Let_def getProperty_def propertyKey_def indexOfKey_def
        splice1_indexOf_in splice1_indexOf_notin)

lemma retirePackage_key:
  "files s fl = Some p \<Longrightarrow> deps (retirePackage s fl) p = None"
  by (simp add: retirePackage_def Let_def getProperty_def propertyKey_def)

text \<open>
  C3. Retiring a package should leave every unresolved set that does not contain its name
  unchanged. In the workspace \<open>chain\<close> the scan gives C the unresolved list [B]; retiring
  A, which is not in that list, empties it: the splice at the index \<open>-1\<close> that
  \<^verbatim>\<open>indexOf\<close> returns deletes the last element.
\<close>

theorem retire_deletes_another_dependency:
  "(case scanAllDependencies (workspace chain []) (Names []) [''a/p'', ''b/p'', ''c/p''] of
      Inl e \<Rightarrow> False
    | Inr fd \<Rightarrow>
        unresolved (snd fd) ''C'' = [''B'']
        \<and> deps (retirePackage
                   ((initialState [''a/p'', ''b/p'', ''c/p''])\<lparr>files := fst fd, deps := snd fd\<rparr>)
                   ''a/p'') ''C'' = Some [])"
  by (simp add: evaluate chain_def)

section \<open>Deadlock\<close>

lemma roundState_loop:
  "roundState h c a n unc s0 k = Some s \<Longrightarrow>
   schedulerLoop h c a n unc s0 = schedulerLoop h c a n unc s"
proof (induction k arbitrary: s0)
  case 0
  then show ?case by simp
next
  case (Suc k)
  let ?next = "retireFrontier h c a n unc s0"
  from Suc.prems have live: "\<not> (emptyPackages unc s0 = [] \<and> packagesCopy s0 \<noteq> [])"
    by (auto split: if_splits)
  from Suc.prems have checked: "unc \<noteq> ExemptAll"
    by (auto split: if_splits)
  from Suc.prems have more: "packagesCopy ?next \<noteq> []"
    by (auto split: if_splits)
  from Suc.prems live checked more have "roundState h c a n unc ?next k = Some s"
    by (auto split: if_splits)
  from Suc.IH [OF this] schedulerLoop_next [OF live checked more] show ?case
    by simp
qed

text \<open>
  C5. When a pass through the loop of a run, the first or a later one, begins with no
  package without dependencies while packages remain, \<^verbatim>\<open>runPackageCommand\<close> returns 1,
  whatever the errors recorded, and ends in the state in which that pass began but for
  one console line, which gives the names of the remaining packages and \<^verbatim>\<open>deps\<close>:
  nothing is dispatched after the passes before. In the workspace \<open>cycle\<close>, where A and B
  depend on each other, the run returns 1, dispatches nothing and reports A and B, each
  unresolved for the other.
\<close>

theorem deadlock_returns_1_at_once:
  "(scanAllDependencies h (processUncheck (uncheck env)) pkgs = Inr fd
      \<and> roundState h c a (length pkgs) (processUncheck (uncheck env))
            ((initialState pkgs)\<lparr>files := fst fd, deps := snd fd\<rparr>) k = Some s
      \<and> emptyPackages (processUncheck (uncheck env)) s = [] \<and> packagesCopy s \<noteq> [] \<longrightarrow>
    runPackageCommand h env pkgs c a
      = (Returned (RetCode 1),
         s\<lparr>console := console s
              @ [DeadlockFound (map (getProperty (files s)) (packagesCopy s)) (deps s)]\<rparr>))
   \<and> fst (runPackageCommand (workspace cycle []) noEnv [''a/p'', ''b/p''] c a)
       = Returned (RetCode 1)
   \<and> dispatched (snd (runPackageCommand (workspace cycle []) noEnv [''a/p'', ''b/p''] c a)) = []
   \<and> packagesCopy (snd (runPackageCommand (workspace cycle []) noEnv [''a/p'', ''b/p''] c a))
       = [''a/p'', ''b/p'']
   \<and> (\<exists>dps. console (snd (runPackageCommand (workspace cycle []) noEnv [''a/p'', ''b/p''] c a))
               = [DeadlockFound [Own ''A'', Own ''B''] dps]
             \<and> dps ''A'' = Some [''B''] \<and> dps ''B'' = Some [''A''])"
proof -
  have "runPackageCommand h env pkgs c a
      = (Returned (RetCode 1),
         s\<lparr>console := console s
              @ [DeadlockFound (map (getProperty (files s)) (packagesCopy s)) (deps s)]\<rparr>)"
    if scan: "scanAllDependencies h (processUncheck (uncheck env)) pkgs = Inr fd"
      and round: "roundState h c a (length pkgs) (processUncheck (uncheck env))
            ((initialState pkgs)\<lparr>files := fst fd, deps := snd fd\<rparr>) k = Some s"
      and stuck: "emptyPackages (processUncheck (uncheck env)) s = []"
      and left: "packagesCopy s \<noteq> []"
  proof -
    have "schedulerLoop h c a (length pkgs) (processUncheck (uncheck env))
            ((initialState pkgs)\<lparr>files := fst fd, deps := snd fd\<rparr>)
          = (True, s\<lparr>console := console s
              @ [DeadlockFound (map (getProperty (files s)) (packagesCopy s)) (deps s)]\<rparr>)"
      unfolding roundState_loop [OF round] by (rule schedulerLoop_deadlock [OF stuck left])
    from runPackageCommand_returns [OF scan this] show ?thesis
      by simp
  qed
  moreover have "fst (runPackageCommand (workspace cycle []) noEnv [''a/p'', ''b/p''] c a)
       = Returned (RetCode 1)"
    by (simp add: evaluate cycle_def)
  moreover have "dispatched (snd (runPackageCommand (workspace cycle []) noEnv [''a/p'', ''b/p''] c a)) = []"
    by (simp add: evaluate cycle_def)
  moreover have "packagesCopy (snd (runPackageCommand (workspace cycle []) noEnv [''a/p'', ''b/p''] c a))
       = [''a/p'', ''b/p'']"
    by (simp add: evaluate cycle_def)
  moreover have "\<exists>dps. console (snd (runPackageCommand (workspace cycle []) noEnv [''a/p'', ''b/p''] c a))
               = [DeadlockFound [Own ''A'', Own ''B''] dps]
             \<and> dps ''A'' = Some [''B''] \<and> dps ''B'' = Some [''A'']"
    by (simp add: evaluate cycle_def)
  ultimately show ?thesis by blast
qed

theorem deadlock_returns_1_witness:
  "isl (scanAllDependencies (workspace late []) (processUncheck (uncheck noEnv))
          [''a/p'', ''b/p'', ''c/p'', ''d/p'']) = False
   \<and> map_option packagesCopy
         (roundState (workspace late []) ''yarn'' [''build''] 4 (processUncheck (uncheck noEnv))
            ((initialState [''a/p'', ''b/p'', ''c/p'', ''d/p''])
               \<lparr>files := fst (projr (scanAllDependencies (workspace late [])
                                       (processUncheck (uncheck noEnv))
                                       [''a/p'', ''b/p'', ''c/p'', ''d/p''])),
                deps := snd (projr (scanAllDependencies (workspace late [])
                                      (processUncheck (uncheck noEnv))
                                      [''a/p'', ''b/p'', ''c/p'', ''d/p'']))\<rparr>) 1)
       = Some [''b/p'', ''c/p'', ''d/p'']
   \<and> fst (runPackageCommand (workspace late []) noEnv [''a/p'', ''b/p'', ''c/p'', ''d/p'']
            ''yarn'' [''build'']) = Returned (RetCode 1)
   \<and> dispatched (snd (runPackageCommand (workspace late []) noEnv
                         [''a/p'', ''b/p'', ''c/p'', ''d/p''] ''yarn'' [''build'']))
       = [[[''a/p'']]]
   \<and> packagesCopy (snd (runPackageCommand (workspace late []) noEnv
                           [''a/p'', ''b/p'', ''c/p'', ''d/p''] ''yarn'' [''build'']))
       = [''b/p'', ''c/p'', ''d/p'']"
proof -
  let ?h = "workspace late []"
  let ?pkgs = "[''a/p'', ''b/p'', ''c/p'', ''d/p'']"
  let ?unc = "processUncheck (uncheck noEnv)"
  let ?fd = "projr (scanAllDependencies ?h ?unc ?pkgs)"
  let ?start = "(initialState ?pkgs)\<lparr>files := fst ?fd, deps := snd ?fd\<rparr>"
  let ?late = "retireFrontier ?h ''yarn'' [''build''] (length ?pkgs) ?unc ?start"
  have scan: "scanAllDependencies ?h ?unc ?pkgs = Inr ?fd"
    by (simp add: evaluate late_def)
  have left: "packagesCopy ?late = [''b/p'', ''c/p'', ''d/p'']"
    by (simp add: evaluate late_def)
  have first: "\<not> (length (emptyPackages ?unc ?start) = 0 \<and> 0 < length (packagesCopy ?start))"
    by (simp add: evaluate late_def)
  have unc: "?unc \<noteq> ExemptAll"
    by (simp add: processUncheck_def noEnv_def)
  have round: "roundState ?h ''yarn'' [''build''] (length ?pkgs) ?unc ?start (Suc 0) = Some ?late"
    unfolding roundState.simps left using first unc by simp
  have stuck: "emptyPackages ?unc ?late = []"
    by (simp add: evaluate late_def)
  have more: "packagesCopy ?late \<noteq> []"
    unfolding left by simp
  note general = deadlock_returns_1_at_once
    [where h = ?h and env = noEnv and pkgs = ?pkgs and fd = ?fd and k = "Suc 0" and s = ?late
       and c = "''yarn''" and a = "[''build'']", THEN conjunct1, rule_format]
  have run: "runPackageCommand ?h noEnv ?pkgs ''yarn'' [''build'']
      = (Returned (RetCode 1),
         ?late\<lparr>console := console ?late
              @ [DeadlockFound (map (getProperty (files ?late)) (packagesCopy ?late)) (deps ?late)]\<rparr>)"
    by (rule general) (intro conjI scan round stuck more)
  have sent: "dispatched ?late = [[[''a/p'']]]"
    by (simp add: evaluate late_def)
  from scan have "isl (scanAllDependencies ?h ?unc ?pkgs) = False"
    by (metis sum.disc(2))
  moreover have "roundState ?h ''yarn'' [''build''] 4 ?unc ?start 1
      = roundState ?h ''yarn'' [''build''] (length ?pkgs) ?unc ?start (Suc 0)"
    by (simp del: roundState.simps add: eval_nat_numeral)
  then have "map_option packagesCopy
      (roundState ?h ''yarn'' [''build''] 4 ?unc ?start 1) = Some [''b/p'', ''c/p'', ''d/p'']"
    by (simp only: round option.map left)
  moreover have "fst (runPackageCommand ?h noEnv ?pkgs ''yarn'' [''build''])
      = Returned (RetCode 1)"
    unfolding run by simp
  moreover have "dispatched (snd (runPackageCommand ?h noEnv ?pkgs ''yarn'' [''build'']))
      = [[[''a/p'']]]"
    unfolding run snd_conv using sent by simp
  moreover have "packagesCopy (snd (runPackageCommand ?h noEnv ?pkgs ''yarn'' [''build'']))
      = [''b/p'', ''c/p'', ''d/p'']"
    unfolding run snd_conv using left by simp
  ultimately show ?thesis
    by blast
qed

section \<open>Exempting every package\<close>

lemma processUncheck_all:
  "uncheck env = Bool True \<or> uncheck env = Str ''*'' \<Longrightarrow> processUncheck (uncheck env) = ExemptAll"
  by (auto simp: processUncheck_def)

text \<open>
  C7. When \<^verbatim>\<open>uncheck\<close> is \<^verbatim>\<open>true\<close> or \<^verbatim>\<open>"*"\<close>, no manifest is scanned, \<^verbatim>\<open>files\<close> and
  \<^verbatim>\<open>deps\<close> stay empty, and the run has exactly one round, whose chunks are the whole list
  of packages in order; the run returns \<^verbatim>\<open>false\<close> or the list of errors, and neither
  throws nor reports a deadlock.
\<close>

theorem exempt_all_runs_one_round:
  assumes "uncheck env = Bool True \<or> uncheck env = Str ''*''"
  shows "scanAllDependencies h (processUncheck (uncheck env)) pkgs = Inr (Map.empty, Map.empty)
    \<and> files (snd (runPackageCommand h env pkgs c a)) = Map.empty
    \<and> deps (snd (runPackageCommand h env pkgs c a)) = Map.empty
    \<and> (\<exists>cks. dispatched (snd (runPackageCommand h env pkgs c a)) = [cks] \<and> concat cks = pkgs)
    \<and> (fst (runPackageCommand h env pkgs c a) = Returned RetFalse
         \<or> fst (runPackageCommand h env pkgs c a)
             = Returned (RetErrors (errors (snd (runPackageCommand h env pkgs c a)))))"
proof -
  let ?s = "(initialState pkgs)\<lparr>files := Map.empty, deps := Map.empty\<rparr>"
  let ?t = "dispatchFrontier h c a (length pkgs) ExemptAll ?s"
  have unc: "processUncheck (uncheck env) = ExemptAll"
    using assms by (rule processUncheck_all)
  have scan: "scanAllDependencies h (processUncheck (uncheck env)) pkgs
                = Inr (Map.empty, Map.empty)"
    by (simp add: unc scanAllDependencies_def)
  have loop: "schedulerLoop h c a (length pkgs) (processUncheck (uncheck env))
                ((initialState pkgs)\<lparr>files := fst (Map.empty, Map.empty),
                                       deps := snd (Map.empty, Map.empty)\<rparr>) = (False, ?t)"
    by (simp add: unc schedulerLoop_exempt)
  note run = runPackageCommand_returns [OF scan loop]
  from dispatchFrontier_dispatched [of h c a "length pkgs" ExemptAll ?s]
  obtain cks where cks: "dispatched ?t = dispatched ?s @ [cks]"
    "concat cks = emptyPackages ExemptAll ?s"
    by blast
  have one: "dispatched ?t = [cks] \<and> concat cks = pkgs"
    using cks by (simp add: initialState_def emptyPackages_def)
  have "files ?t = Map.empty" "deps ?t = Map.empty"
    by (simp_all add: dispatchFrontier_frame)
  with one scan show ?thesis
    by (auto simp: run)
qed

theorem exempt_all_runs_one_round_witness:
  "(uncheck (noEnv\<lparr>uncheck := Str ''*''\<rparr>) = Bool True
      \<or> uncheck (noEnv\<lparr>uncheck := Str ''*''\<rparr>) = Str ''*'')
   \<and> dispatched (snd (runPackageCommand (workspace bare []) (noEnv\<lparr>uncheck := Str ''*''\<rparr>)
                         [''a/p'', ''b/p''] ''yarn'' [''build''])) = [[[''a/p'', ''b/p'']]]
   \<and> fst (runPackageCommand (workspace bare []) (noEnv\<lparr>uncheck := Str ''*''\<rparr>)
            [''a/p'', ''b/p''] ''yarn'' [''build'']) = Returned RetFalse"
proof -
  have star: "uncheck (noEnv\<lparr>uncheck := Str ''*''\<rparr>) = Bool True
      \<or> uncheck (noEnv\<lparr>uncheck := Str ''*''\<rparr>) = Str ''*''"
    by simp
  from exempt_all_runs_one_round [OF star, of "workspace bare []" "[''a/p'', ''b/p'']"
      "''yarn''" "[''build'']"]
  obtain cks where one: "dispatched (snd (runPackageCommand (workspace bare [])
        (noEnv\<lparr>uncheck := Str ''*''\<rparr>) [''a/p'', ''b/p''] ''yarn'' [''build''])) = [cks]"
    by blast
  have "dispatched (snd (runPackageCommand (workspace bare []) (noEnv\<lparr>uncheck := Str ''*''\<rparr>)
                         [''a/p'', ''b/p''] ''yarn'' [''build''])) = [[[''a/p'', ''b/p'']]]"
    by (simp add: evaluate bare_def)
  moreover have "fst (runPackageCommand (workspace bare []) (noEnv\<lparr>uncheck := Str ''*''\<rparr>)
            [''a/p'', ''b/p''] ''yarn'' [''build'']) = Returned RetFalse"
    by (simp add: evaluate bare_def)
  ultimately show ?thesis
    using star one by simp
qed

section \<open>Chunks and the number of commands in flight\<close>

lemma executing_append: "executing (xs @ ys) = executing xs + executing ys"
  by (induction xs rule: executing.induct) simp_all

lemma executing_le_length: "executing evs \<le> int (length evs)"
  by (induction evs rule: executing.induct) simp_all

lemma executing_Settled: "executing (take k (map Settled fs)) \<le> 0"
proof (induction fs arbitrary: k)
  case Nil
  then show ?case by simp
next
  case (Cons fl fs)
  show ?case
  proof (cases k)
    case 0
    then show ?thesis by simp
  next
    case (Suc j)
    with Cons.IH [of j] show ?thesis by simp
  qed
qed

lemma executing_Started: "executing (map Started fs) = int (length fs)"
  by (induction fs) simp_all

lemma executing_chunk: "executing (chunkEvents chunk) = 0"
proof -
  have "executing (map Settled chunk) = - int (length chunk)"
    by (induction chunk) simp_all
  then show ?thesis
    by (simp add: chunkEvents_def executing_append executing_Started)
qed

lemma executing_take_chunk: "executing (take k (chunkEvents chunk)) \<le> int (length chunk)"
proof -
  have "executing (take k (map Started chunk)) \<le> int (length chunk)"
    using executing_le_length [of "take k (map Started chunk)"] by simp
  with executing_Settled [of "k - length chunk" chunk] show ?thesis
    by (simp add: chunkEvents_def executing_append)
qed

lemma executing_take_chunks:
  assumes "\<forall>chunk \<in> set cks. length chunk \<le> n"
  shows "executing (take k (concat (map chunkEvents cks))) \<le> int n"
  using assms
proof (induction cks arbitrary: k)
  case Nil
  then show ?case by simp
next
  case (Cons chunk cks)
  show ?case
  proof (cases "k \<le> length (chunkEvents chunk)")
    case True
    with executing_take_chunk [of k chunk] Cons.prems show ?thesis
      by simp
  next
    case False
    with Cons.IH [of "k - length (chunkEvents chunk)"] Cons.prems show ?thesis
      by (simp add: executing_append executing_chunk)
  qed
qed

lemma schedulerLoop_chunks:
  assumes "\<forall>round \<in> set (dispatched s).
             (\<forall>chunk \<in> set round. chunk \<noteq> [] \<and> length chunk \<le> maxThreads h)
             \<and> (\<forall>chunk \<in> set (butlast round). length chunk = maxThreads h)"
  shows "\<forall>round \<in> set (dispatched (snd (schedulerLoop h c a n unc s))).
             (\<forall>chunk \<in> set round. chunk \<noteq> [] \<and> length chunk \<le> maxThreads h)
             \<and> (\<forall>chunk \<in> set (butlast round). length chunk = maxThreads h)"
proof (rule schedulerLoop_invariant
    [where I = "\<lambda>t. \<forall>round \<in> set (dispatched t).
             (\<forall>chunk \<in> set round. chunk \<noteq> [] \<and> length chunk \<le> maxThreads h)
             \<and> (\<forall>chunk \<in> set (butlast round). length chunk = maxThreads h)"])
  show "\<forall>round \<in> set (dispatched s).
             (\<forall>chunk \<in> set round. chunk \<noteq> [] \<and> length chunk \<le> maxThreads h)
             \<and> (\<forall>chunk \<in> set (butlast round). length chunk = maxThreads h)"
    by (rule assms)
next
  fix t :: state
  assume inv: "\<forall>round \<in> set (dispatched t).
             (\<forall>chunk \<in> set round. chunk \<noteq> [] \<and> length chunk \<le> maxThreads h)
             \<and> (\<forall>chunk \<in> set (butlast round). length chunk = maxThreads h)"
  from dispatchFrontier_dispatched [of h c a n unc t]
  obtain cks where cks: "dispatched (dispatchFrontier h c a n unc t) = dispatched t @ [cks]"
    "\<forall>ck \<in> set cks. ck \<noteq> [] \<and> length ck \<le> maxThreads h"
    "\<forall>ck \<in> set (butlast cks). length ck = maxThreads h"
    by blast
  with inv show "\<forall>round \<in> set (dispatched (dispatchFrontier h c a n unc t)).
             (\<forall>chunk \<in> set round. chunk \<noteq> [] \<and> length chunk \<le> maxThreads h)
             \<and> (\<forall>chunk \<in> set (butlast round). length chunk = maxThreads h)"
    by auto
next
  fix t :: state and es
  assume "\<forall>round \<in> set (dispatched t).
             (\<forall>chunk \<in> set round. chunk \<noteq> [] \<and> length chunk \<le> maxThreads h)
             \<and> (\<forall>chunk \<in> set (butlast round). length chunk = maxThreads h)"
  then show "\<forall>round \<in> set (dispatched (retireAll es t)).
             (\<forall>chunk \<in> set round. chunk \<noteq> [] \<and> length chunk \<le> maxThreads h)
             \<and> (\<forall>chunk \<in> set (butlast round). length chunk = maxThreads h)"
    by (simp add: retireAll_frame)
next
  fix t :: state and m
  assume "\<forall>round \<in> set (dispatched t).
             (\<forall>chunk \<in> set round. chunk \<noteq> [] \<and> length chunk \<le> maxThreads h)
             \<and> (\<forall>chunk \<in> set (butlast round). length chunk = maxThreads h)"
  then show "\<forall>round \<in> set (dispatched (t\<lparr>console := console t @ [m]\<rparr>)).
             (\<forall>chunk \<in> set round. chunk \<noteq> [] \<and> length chunk \<le> maxThreads h)
             \<and> (\<forall>chunk \<in> set (butlast round). length chunk = maxThreads h)"
    by simp
qed

lemma runPackageCommand_chunks:
  "\<forall>round \<in> set (dispatched (snd (runPackageCommand h env pkgs c a))).
     (\<forall>chunk \<in> set round. chunk \<noteq> [] \<and> length chunk \<le> maxThreads h)
     \<and> (\<forall>chunk \<in> set (butlast round). length chunk = maxThreads h)"
proof (cases "scanAllDependencies h (processUncheck (uncheck env)) pkgs")
  case (Inl e)
  then show ?thesis
    by (simp add: runPackageCommand_throws initialState_def)
next
  case (Inr fd)
  let ?s = "(initialState pkgs)\<lparr>files := fst fd, deps := snd fd\<rparr>"
  have "\<forall>round \<in> set (dispatched ?s).
             (\<forall>chunk \<in> set round. chunk \<noteq> [] \<and> length chunk \<le> maxThreads h)
             \<and> (\<forall>chunk \<in> set (butlast round). length chunk = maxThreads h)"
    by (simp add: initialState_def)
  from schedulerLoop_chunks [OF this] runPackageCommand_final [OF Inr, of c a]
  show ?thesis by simp
qed

text \<open>
  C8. The limit is \<open>max (round (cpus / 2)) 2\<close>, a half rounded up; it depends on the host
  only. In every round of a run each chunk has at least one and at most that many files,
  and each chunk but the last of its round has exactly that many. A chunk's commands are
  started together and have all settled before the next chunk starts, so that at every
  moment of the run the number of commands started and not settled is at most the limit.
\<close>

theorem chunks_bound_the_commands_in_flight:
  "int (maxThreads h) = max (mathRound (real (cpus h) / 2)) 2
   \<and> maxThreads h = max ((cpus h + 1) div 2) 2
   \<and> (\<forall>round \<in> set (dispatched (snd (runPackageCommand h env pkgs c a))).
        (\<forall>chunk \<in> set round. chunk \<noteq> [] \<and> length chunk \<le> maxThreads h)
        \<and> (\<forall>chunk \<in> set (butlast round). length chunk = maxThreads h))
   \<and> (\<forall>k. executing (take k (runEvents (dispatched (snd (runPackageCommand h env pkgs c a)))))
            \<le> int (maxThreads h))"
proof -
  have "int (maxThreads h) = max (mathRound (real (cpus h) / 2)) 2"
    unfolding maxThreads_def by (simp add: max_def)
  moreover note maxThreads_eq [of h] runPackageCommand_chunks [of h env pkgs c a]
  moreover have "executing (take k (runEvents (dispatched (snd (runPackageCommand h env pkgs c a)))))
            \<le> int (maxThreads h)" for k
    unfolding runEvents_def
    using runPackageCommand_chunks [of h env pkgs c a]
    by (intro executing_take_chunks) auto
  ultimately show ?thesis by blast
qed

theorem chunks_bound_witness:
  "maxThreads (workspace fork []) = 2
   \<and> dispatched (snd (runPackageCommand (workspace fork []) (noEnv\<lparr>uncheck := Str ''*''\<rparr>)
                         [''a/p'', ''b/p'', ''c/p''] ''yarn'' [''build'']))
       = [[[''a/p'', ''b/p''], [''c/p'']]]
   \<and> executing (take 2 (runEvents (dispatched (snd (runPackageCommand (workspace fork [])
          (noEnv\<lparr>uncheck := Str ''*''\<rparr>) [''a/p'', ''b/p'', ''c/p''] ''yarn'' [''build''])))))
       \<le> int (maxThreads (workspace fork []))
   \<and> executing (take 2 (runEvents [[[''a/p'', ''b/p''], [''c/p'']]])) = 2
   \<and> executing (take 5 (runEvents [[[''a/p'', ''b/p''], [''c/p'']]])) = 1"
proof -
  have limit: "maxThreads (workspace fork []) = 2"
    by (simp add: maxThreads_eq workspace_def)
  have rounds: "dispatched (snd (runPackageCommand (workspace fork [])
          (noEnv\<lparr>uncheck := Str ''*''\<rparr>) [''a/p'', ''b/p'', ''c/p''] ''yarn'' [''build'']))
       = [[[''a/p'', ''b/p''], [''c/p'']]]"
    by (simp add: evaluate fork_def)
  from chunks_bound_the_commands_in_flight
    [where h = "workspace fork []" and env = "noEnv\<lparr>uncheck := Str ''*''\<rparr>"
       and pkgs = "[''a/p'', ''b/p'', ''c/p'']" and c = "''yarn''" and a = "[''build'']"]
  have "executing (take 2 (runEvents (dispatched (snd (runPackageCommand (workspace fork [])
          (noEnv\<lparr>uncheck := Str ''*''\<rparr>) [''a/p'', ''b/p'', ''c/p''] ''yarn'' [''build''])))))
       \<le> int (maxThreads (workspace fork []))"
    by blast
  moreover have "executing (take 2 (runEvents [[[''a/p'', ''b/p''], [''c/p'']]])) = 2"
    by (simp add: runEvents_def chunkEvents_def)
  moreover have "executing (take 5 (runEvents [[[''a/p'', ''b/p''], [''c/p'']]])) = 1"
    by (simp add: runEvents_def chunkEvents_def)
  ultimately show ?thesis
    using limit rounds by blast
qed

section \<open>The scan of the dependencies\<close>

subsection \<open>What the scan adds\<close>

lemma unresolved_upd:
  "unresolved (dps(k \<mapsto> ds)) q = (if q = k then ds else unresolved dps q)"
  by (simp add: unresolved_def)

lemma scanFiles_edges:
  "scanFiles h ns cur fs dps = Inr dps' \<Longrightarrow>
   set (unresolved dps' q)
     = set (unresolved dps q)
       \<union> {p. p = name cur \<and> (\<exists>fq \<in> set fs. findsDependency h ns fq q p)}"
proof (induction fs arbitrary: dps)
  case Nil
  then show ?case by simp
next
  case (Cons fl fs)
  from Cons.prems obtain info where info: "readFile h fl = Some info"
    by (cases "readFile h fl") simp_all
  let ?dps1 = "case getProperty dps (name info) of
                 NoProperty \<Rightarrow> dps(name info \<mapsto> [])
               | _ \<Rightarrow> dps"
  let ?here = "{p. p = name cur \<and> findsDependency h ns fl q p}"
  let ?later = "{p. p = name cur \<and> (\<exists>fq \<in> set fs. findsDependency h ns fq q p)}"
  have same: "unresolved ?dps1 q = unresolved dps q"
    by (auto simp: unresolved_def getProperty_def split: option.splits property.splits)
  have split: "{p. p = name cur \<and> (\<exists>fq \<in> set (fl # fs). findsDependency h ns fq q p)}
                 = ?here \<union> ?later"
    by auto
  note step = Cons.prems [unfolded scanFiles.simps info option.case Let_def]
  show ?case
  proof (cases "name info \<in> set ns")
    case True
    with step have "scanFiles h ns cur fs ?dps1 = Inr dps'"
      by simp
    from Cons.IH [OF this]
    have "set (unresolved dps' q) = set (unresolved dps q) \<union> ?later"
      unfolding same .
    moreover from True info have "?here = {}"
      by (auto simp: findsDependency_def)
    ultimately show ?thesis
      unfolding split by auto
  next
    case False
    with step obtain d where d: "dependencies info = Some d"
      by (cases "dependencies info") simp_all
    have here: "findsDependency h ns fl q p = (name info = q \<and> truthy (getProperty d p))" for p
      using info d False by (auto simp: findsDependency_def)
    note step' = step [unfolded d option.case]
    show ?thesis
    proof (cases "truthy (getProperty d (name cur))")
      case no: False
      with step' False have "scanFiles h ns cur fs ?dps1 = Inr dps'"
        by simp
      from Cons.IH [OF this]
      have "set (unresolved dps' q) = set (unresolved dps q) \<union> ?later"
        unfolding same .
      moreover from no have "?here = {}"
        by (auto simp: here)
      ultimately show ?thesis
        unfolding split by auto
    next
      case yes: True
      with step' False obtain own where own: "getProperty ?dps1 (name info) = Own own"
        by (cases "getProperty ?dps1 (name info)") simp_all
      then have array: "?dps1 (name info) = Some own"
        by (simp add: getProperty_def split: option.splits if_splits)
      then have own_eq: "unresolved dps (name info) = own"
        by (auto simp: unresolved_def getProperty_def split: option.splits if_splits)
      show ?thesis
      proof (cases "name cur \<in> set own")
        case True
        with step' False yes own have "scanFiles h ns cur fs ?dps1 = Inr dps'"
          by simp
        from Cons.IH [OF this]
        have "set (unresolved dps' q) = set (unresolved dps q) \<union> ?later"
          unfolding same .
        moreover from True own_eq have "?here \<subseteq> set (unresolved dps q)"
          by (auto simp: here)
        ultimately show ?thesis
          unfolding split by auto
      next
        case new: False
        let ?dps2 = "?dps1(name info \<mapsto> own @ [name cur])"
        from step' False yes own new have "scanFiles h ns cur fs ?dps2 = Inr dps'"
          by simp
        from Cons.IH [OF this]
        have "set (unresolved dps' q)
                = set (if q = name info then own @ [name cur] else unresolved dps q) \<union> ?later"
          unfolding unresolved_upd same .
        moreover from yes have "?here = (if q = name info then {name cur} else {})"
          by (auto simp: here)
        ultimately show ?thesis
          unfolding split using own_eq by auto
      qed
    qed
  qed
qed

lemma scanDependencies_edges:
  "scanDependencies h ns pkgs cs fd = Inr fd' \<Longrightarrow>
   set (unresolved (snd fd') q)
     = set (unresolved (snd fd) q)
       \<union> {p. \<exists>fp \<in> set cs. named h fp p \<and> (\<exists>fq \<in> set pkgs. findsDependency h ns fq q p)}"
proof (induction cs arbitrary: fd)
  case Nil
  then show ?case by simp
next
  case (Cons cf cs)
  from Cons.prems obtain cur where cur: "readFile h cf = Some cur"
    by (cases "readFile h cf") simp_all
  with Cons.prems obtain dps where dps: "scanFiles h ns cur pkgs (snd fd) = Inr dps"
    by (cases "scanFiles h ns cur pkgs (snd fd)") simp_all
  with Cons.prems cur
  have "scanDependencies h ns pkgs cs (setProperty (fst fd) cf (name cur), dps) = Inr fd'"
    by simp
  from Cons.IH [OF this] scanFiles_edges [OF dps, of q] cur show ?case
    by (auto simp: named_def)
qed

lemma scanAllDependencies_edges:
  assumes "scanAllDependencies h (Names ns) pkgs = Inr fd"
  shows "(p \<in> set (unresolved (snd fd) q))
           = (\<exists>fp \<in> set pkgs. \<exists>fq \<in> set pkgs. named h fp p \<and> findsDependency h ns fq q p)"
proof -
  from assms have "scanDependencies h ns pkgs pkgs (Map.empty, Map.empty) = Inr fd"
    by (simp add: scanAllDependencies_def)
  from scanDependencies_edges [OF this, of q] show ?thesis
    by (auto simp: unresolved_def)
qed

lemma findsDependency_declares:
  "p \<notin> set objectPrototype \<Longrightarrow> findsDependency h ns fq q p = declares h ns fq q p"
  by (auto simp: findsDependency_def declares_def getProperty_def split: option.splits)

subsection \<open>What the scan reads\<close>

lemma scanFiles_reads:
  "map (readFile h1) fs1 = map (readFile h2) fs2 \<Longrightarrow>
   scanFiles h1 ns cur fs1 dps = scanFiles h2 ns cur fs2 dps"
proof (induction fs1 arbitrary: fs2 dps)
  case Nil
  then show ?case by simp
next
  case (Cons fl fs1)
  then obtain fl2 fs2' where fs2: "fs2 = fl2 # fs2'" "readFile h1 fl = readFile h2 fl2"
    "map (readFile h1) fs1 = map (readFile h2) fs2'"
    by (cases fs2) auto
  show ?case
    by (simp only: fs2(1) scanFiles.simps fs2(2) Cons.IH [OF fs2(3)])
qed

lemma scanDependencies_reads:
  "map (readFile h1) pk1 = map (readFile h2) pk2 \<Longrightarrow>
   map (readFile h1) cs1 = map (readFile h2) cs2 \<Longrightarrow>
   map_sum id snd (scanDependencies h1 ns pk1 cs1 (f1, dps))
     = map_sum id snd (scanDependencies h2 ns pk2 cs2 (f2, dps))"
proof (induction cs1 arbitrary: cs2 f1 f2 dps)
  case Nil
  then show ?case by simp
next
  case (Cons cf cs1)
  from Cons.prems(2) obtain cf2 cs2' where cs2: "cs2 = cf2 # cs2'"
    "readFile h1 cf = readFile h2 cf2" "map (readFile h1) cs1 = map (readFile h2) cs2'"
    by (cases cs2) auto
  note inner = scanFiles_reads [OF Cons.prems(1)]
  show ?case
  proof (cases "readFile h2 cf2")
    case None
    then show ?thesis by (simp add: cs2)
  next
    case (Some cur)
    show ?thesis
    proof (cases "scanFiles h2 ns cur pk2 dps")
      case (Inl e)
      then show ?thesis by (simp add: cs2 Some inner)
    next
      case (Inr dps')
      with Cons.IH [OF Cons.prems(1) cs2(3)] show ?thesis
        by (simp add: cs2 Some inner)
    qed
  qed
qed

text \<open>
  The scan reads the name of each manifest, and the \<^verbatim>\<open>dependencies\<close> of each manifest
  whose name is not unchecked: two hosts whose manifests agree in these give the same
  result.
\<close>

lemma scanFiles_agree:
  assumes cur: "name cur' = name cur"
    and none: "\<And>f. readFile h f = None \<Longrightarrow> readFile h' f = None"
    and some: "\<And>f m. readFile h f = Some m \<Longrightarrow>
                 \<exists>m'. readFile h' f = Some m' \<and> name m' = name m
                      \<and> (name m \<in> set ns \<or> dependencies m' = dependencies m)"
  shows "scanFiles h' ns cur' fs dps = scanFiles h ns cur fs dps"
proof (induction fs arbitrary: dps)
  case Nil
  then show ?case by simp
next
  case (Cons fl fs)
  show ?case
  proof (cases "readFile h fl")
    case None
    with none [OF None] show ?thesis by simp
  next
    case (Some m)
    from some [OF Some] obtain m' where m': "readFile h' fl = Some m'" "name m' = name m"
      "name m \<in> set ns \<or> dependencies m' = dependencies m"
      by blast
    show ?thesis
    proof (cases "name m \<in> set ns")
      case True
      show ?thesis
        by (simp only: scanFiles.simps Some m'(1) m'(2) cur Cons.IH Let_def option.case)
           (simp add: True)
    next
      case False
      with m'(3) have same: "dependencies m' = dependencies m"
        by simp
      show ?thesis
        by (simp only: scanFiles.simps Some m'(1) m'(2) same cur Cons.IH Let_def option.case)
    qed
  qed
qed

lemma scanDependencies_agree:
  assumes none: "\<And>f. readFile h f = None \<Longrightarrow> readFile h' f = None"
    and some: "\<And>f m. readFile h f = Some m \<Longrightarrow>
                 \<exists>m'. readFile h' f = Some m' \<and> name m' = name m
                      \<and> (name m \<in> set ns \<or> dependencies m' = dependencies m)"
  shows "scanDependencies h' ns pkgs cs fd = scanDependencies h ns pkgs cs fd"
proof (induction cs arbitrary: fd)
  case Nil
  then show ?case by simp
next
  case (Cons cf cs)
  show ?case
  proof (cases "readFile h cf")
    case None
    with none [OF None] show ?thesis by simp
  next
    case (Some cur)
    from some [OF Some] obtain cur' where cur': "readFile h' cf = Some cur'"
      "name cur' = name cur"
      by blast
    have inner: "scanFiles h' ns cur' pkgs (snd fd) = scanFiles h ns cur pkgs (snd fd)"
      using cur'(2) none some by (rule scanFiles_agree)
    show ?thesis
      by (cases "scanFiles h ns cur pkgs (snd fd)")
         (simp_all add: Some cur' inner Cons.IH)
  qed
qed

lemma scanDependencies_devDependencies:
  "scanDependencies
      (h\<lparr>readFile := \<lambda>f. map_option (\<lambda>m. m\<lparr>devDependencies := dv f\<rparr>) (readFile h f)\<rparr>)
      ns pkgs cs fd
     = scanDependencies h ns pkgs cs fd"
  by (rule scanDependencies_agree) simp_all

text \<open>The \<^verbatim>\<open>dependencies\<close> of a manifest whose name is unchecked are not read.\<close>

lemma scanDependencies_unchecked:
  "scanDependencies
      (h\<lparr>readFile := \<lambda>f. map_option
           (\<lambda>m. if name m \<in> set ns then m\<lparr>dependencies := dd f\<rparr> else m) (readFile h f)\<rparr>)
      ns pkgs cs fd
     = scanDependencies h ns pkgs cs fd"
  by (rule scanDependencies_agree) simp_all

subsection \<open>When the scan throws\<close>

lemma scanFiles_throws:
  assumes "fl \<in> set fs" and "readFile h fl = Some info" and "dependencies info = None"
    and "name info \<notin> set ns"
  shows "\<exists>e. scanFiles h ns cur fs dps = Inl e
           \<and> (e = TypeError \<or> e = ManifestError \<and> (\<exists>f \<in> set fs. readFile h f = None))"
  using assms(1)
proof (induction fs arbitrary: dps)
  case Nil
  then show ?case by simp
next
  case (Cons f fs)
  show ?case
  proof (cases "readFile h f")
    case None
    then show ?thesis by simp
  next
    case (Some m)
    show ?thesis
    proof (cases "f = fl")
      case True
      with Some assms show ?thesis
        by (simp add: Let_def)
    next
      case False
      with Cons.prems have "fl \<in> set fs" by simp
      from Cons.IH [OF this] Some show ?thesis
        by (auto simp: Let_def split: option.splits property.splits)
    qed
  qed
qed

lemma scanDependencies_throws:
  assumes "fl \<in> set pkgs" and "readFile h fl = Some info" and "dependencies info = None"
    and "name info \<notin> set ns"
  shows "\<exists>e. scanDependencies h ns pkgs pkgs fd = Inl e
           \<and> (e = TypeError \<or> e = ManifestError \<and> (\<exists>f \<in> set pkgs. readFile h f = None))"
proof (cases pkgs)
  case Nil
  with assms(1) show ?thesis by simp
next
  case (Cons cf rest)
  show ?thesis
  proof (cases "readFile h cf")
    case None
    then show ?thesis
      by (subst Cons) (simp add: Cons)
  next
    case (Some cur)
    from scanFiles_throws [OF assms, of cur "snd fd"]
    obtain e where "scanFiles h ns cur pkgs (snd fd) = Inl e"
      "e = TypeError \<or> e = ManifestError \<and> (\<exists>f \<in> set pkgs. readFile h f = None)"
      by blast
    with Some show ?thesis
      by (subst (2) Cons) simp
  qed
qed

subsection \<open>The edges of the graph\<close>

text \<open>
  C4, as stated, fails: the exemption list is compared with the name of the dependent
  package and not with the name of the dependency. In the workspace \<open>chain\<close> with
  \<^verbatim>\<open>uncheck = "B"\<close> the scan does not throw, C keeps the exempted B in its unresolved list,
  and B, which declares the dependency A, has an empty unresolved list although A is not
  exempted.
\<close>

theorem exemption_is_of_the_dependent:
  "processUncheck (Str ''B'') = Names [''B'']
   \<and> isl (scanAllDependencies (workspace chain []) (Names [''B'']) [''a/p'', ''b/p'', ''c/p''])
       = False
   \<and> unresolved (builtDeps (workspace chain []) (Names [''B'']) [''a/p'', ''b/p'', ''c/p''])
         ''C'' = [''B'']
   \<and> unresolved (builtDeps (workspace chain []) (Names [''B'']) [''a/p'', ''b/p'', ''c/p''])
         ''B'' = []"
  by (simp add: evaluate chain_def)

text \<open>
  C4, amended. When the scan of the dependencies does not throw, for distinct names \<open>p\<close>
  and \<open>q\<close>, with \<open>p\<close> not the name of a member of \<^verbatim>\<open>Object.prototype\<close>: \<open>p\<close> is in the
  unresolved list of \<open>q\<close> exactly when \<open>p\<close> is the name of a manifest of the list, and a
  manifest of the list named \<open>q\<close>, with \<open>q\<close> not in the exemption list, gives the key \<open>p\<close>
  a non-empty string in its \<^verbatim>\<open>dependencies\<close>. The \<^verbatim>\<open>devDependencies\<close> are not read:
  replacing them in every manifest leaves the result of the scan as it is.
\<close>

theorem unresolved_edges:
  assumes "scanAllDependencies h (Names ns) pkgs = Inr fd" and "p \<noteq> q"
    and "p \<notin> set objectPrototype"
  shows "(p \<in> set (unresolved (snd fd) q))
           = (\<exists>fp \<in> set pkgs. \<exists>fq \<in> set pkgs. named h fp p \<and> declares h ns fq q p)
       \<and> scanAllDependencies
           (h\<lparr>readFile := \<lambda>f. map_option (\<lambda>m. m\<lparr>devDependencies := dv f\<rparr>) (readFile h f)\<rparr>)
           (Names ns) pkgs
         = scanAllDependencies h (Names ns) pkgs"
  using scanAllDependencies_edges [OF assms(1), of p q]
  by (simp add: scanAllDependencies_def scanDependencies_devDependencies
        findsDependency_declares [OF assms(3)])

theorem unresolved_edges_witness:
  "scanAllDependencies (workspace fork []) (Names []) [''a/p'', ''b/p'', ''c/p'']
     = Inr (fst (projr (scanAllDependencies (workspace fork []) (Names [])
                          [''a/p'', ''b/p'', ''c/p''])),
            builtDeps (workspace fork []) (Names []) [''a/p'', ''b/p'', ''c/p''])
   \<and> ''A'' \<noteq> ''B''
   \<and> ''A'' \<notin> set objectPrototype
   \<and> ''A'' \<in> set (unresolved (builtDeps (workspace fork []) (Names [])
                                 [''a/p'', ''b/p'', ''c/p'']) ''B'')
   \<and> named (workspace fork []) ''a/p'' ''A''
   \<and> declares (workspace fork []) [] ''b/p'' ''B'' ''A''"
proof -
  let ?scan = "scanAllDependencies (workspace fork []) (Names []) [''a/p'', ''b/p'', ''c/p'']"
  let ?fd = "(fst (projr ?scan), builtDeps (workspace fork []) (Names []) [''a/p'', ''b/p'', ''c/p''])"
  have scan: "?scan = Inr ?fd"
    by (simp add: evaluate fork_def)
  have names: "''A'' \<noteq> ''B''"
    by simp
  have own: "''A'' \<notin> set objectPrototype"
    by (simp add: objectPrototype_def)
  have a: "named (workspace fork []) ''a/p'' ''A''"
    by (simp add: named_def workspace_def fork_def manifest_def)
  have b: "declares (workspace fork []) [] ''b/p'' ''B'' ''A''"
    by (simp add: declares_def workspace_def fork_def manifest_def)
  from a b have "\<exists>fp \<in> set [''a/p'', ''b/p'', ''c/p'']. \<exists>fq \<in> set [''a/p'', ''b/p'', ''c/p''].
      named (workspace fork []) fp ''A'' \<and> declares (workspace fork []) [] fq ''B'' ''A''"
    by auto
  with unresolved_edges [OF scan names own]
  have "''A'' \<in> set (unresolved (builtDeps (workspace fork []) (Names [])
                                 [''a/p'', ''b/p'', ''c/p'']) ''B'')"
    by simp
  with scan names own a b show ?thesis
    by blast
qed

text \<open>
  The scan does not compare the two names: a manifest that lists its own name gets it in
  its unresolved list, and the run then reports a deadlock.
\<close>

lemma self_dependency_is_an_edge:
  "unresolved (builtDeps (workspace selfish []) (Names []) [''a/p'']) ''A'' = [''A'']
   \<and> runPackageCommand (workspace selfish []) noEnv [''a/p''] c a
       = (Returned (RetCode 1),
          (initialState [''a/p''])
            \<lparr>files := [''a/p'' \<mapsto> ''A''], deps := [''A'' \<mapsto> [''A'']],
             console := [DeadlockFound [Own ''A''] [''A'' \<mapsto> [''A'']]]\<rparr>)"
  by (simp add: evaluate selfish_def)

text \<open>
  The scan reads \<^verbatim>\<open>dependencies[name]\<close> and \<^verbatim>\<open>deps[name]\<close> through
  \<^verbatim>\<open>Object.prototype\<close>. In the workspace \<open>inheritedName\<close>, whose second package is named
  \<^verbatim>\<open>constructor\<close>: with that package unchecked, A, which declares nothing, gets
  \<^verbatim>\<open>constructor\<close> in its unresolved list, and the run reports a deadlock; with no
  package unchecked, the scan throws a \<^verbatim>\<open>TypeError\<close>.
\<close>

lemma inherited_member_is_an_edge:
  "unresolved (builtDeps (workspace inheritedName []) (Names [''constructor''])
                 [''a/p'', ''k/p'']) ''A'' = [''constructor'']
   \<and> declares (workspace inheritedName []) [''constructor''] ''a/p'' ''A'' ''constructor''
       = False
   \<and> fst (runPackageCommand (workspace inheritedName []) (noEnv\<lparr>uncheck := Str ''constructor''\<rparr>)
            [''a/p'', ''k/p''] c a) = Returned (RetCode 1)
   \<and> scanAllDependencies (workspace inheritedName []) (Names []) [''a/p'', ''k/p'']
       = Inl TypeError"
  by (simp add: evaluate inheritedName_def declares_def)

subsection \<open>A manifest without dependencies\<close>

text \<open>
  C9, as stated, fails: the \<^verbatim>\<open>dependencies\<close> of a package named in \<^verbatim>\<open>uncheck\<close> are not
  read. In the workspace \<open>bare\<close> the manifest of B has no \<^verbatim>\<open>dependencies\<close>; with
  \<^verbatim>\<open>uncheck = "B"\<close> the run does not throw: it dispatches B, then A, and returns
  \<^verbatim>\<open>false\<close>.
\<close>

theorem unchecked_manifest_without_dependencies_runs:
  "processUncheck (uncheck (noEnv\<lparr>uncheck := Str ''B''\<rparr>)) = Names [''B'']
   \<and> map_option dependencies (readFile (workspace bare []) ''b/p'') = Some None
   \<and> fst (runPackageCommand (workspace bare []) (noEnv\<lparr>uncheck := Str ''B''\<rparr>)
            [''a/p'', ''b/p''] ''yarn'' [''build'']) = Returned RetFalse
   \<and> dispatched (snd (runPackageCommand (workspace bare []) (noEnv\<lparr>uncheck := Str ''B''\<rparr>)
                         [''a/p'', ''b/p''] ''yarn'' [''build''])) = [[[''b/p'']], [[''a/p'']]]"
  by (simp add: evaluate bare_def)

text \<open>
  C9, amended. When \<^verbatim>\<open>uncheck\<close> is a list of names and a manifest of the package list has
  no \<^verbatim>\<open>dependencies\<close> and a name that is not in that list, \<^verbatim>\<open>runPackageCommand\<close> throws
  during the scan: a \<^verbatim>\<open>TypeError\<close>, unless a manifest that cannot be read makes it throw
  before. Nothing has been dispatched and no error has been recorded. The
  \<^verbatim>\<open>dependencies\<close> of the manifests whose name is in the list are not read by the scan:
  replacing them, or taking them away, leaves its result as it is.
\<close>

theorem checked_manifest_without_dependencies_throws:
  "(processUncheck (uncheck env) = Names ns
      \<and> fl \<in> set pkgs \<and> readFile h fl = Some info \<and> dependencies info = None
      \<and> name info \<notin> set ns \<longrightarrow>
    (\<exists>e. fst (runPackageCommand h env pkgs c a) = Threw e
         \<and> (e = TypeError \<or> e = ManifestError \<and> (\<exists>f \<in> set pkgs. readFile h f = None)))
    \<and> dispatched (snd (runPackageCommand h env pkgs c a)) = []
    \<and> errors (snd (runPackageCommand h env pkgs c a)) = [])
   \<and> scanAllDependencies
        (h\<lparr>readFile := \<lambda>f. map_option
             (\<lambda>m. if name m \<in> set ns then m\<lparr>dependencies := dd f\<rparr> else m) (readFile h f)\<rparr>)
        (Names ns) pkgs
     = scanAllDependencies h (Names ns) pkgs"
proof -
  have "(\<exists>e. fst (runPackageCommand h env pkgs c a) = Threw e
         \<and> (e = TypeError \<or> e = ManifestError \<and> (\<exists>f \<in> set pkgs. readFile h f = None)))
    \<and> dispatched (snd (runPackageCommand h env pkgs c a)) = []
    \<and> errors (snd (runPackageCommand h env pkgs c a)) = []"
    if unc: "processUncheck (uncheck env) = Names ns"
      and bare: "fl \<in> set pkgs" "readFile h fl = Some info" "dependencies info = None"
        "name info \<notin> set ns"
  proof -
    from scanDependencies_throws [OF bare, of "(Map.empty, Map.empty)"]
    obtain e where e: "scanDependencies h ns pkgs pkgs (Map.empty, Map.empty) = Inl e"
      "e = TypeError \<or> e = ManifestError \<and> (\<exists>f \<in> set pkgs. readFile h f = None)"
      by blast
    then have "scanAllDependencies h (processUncheck (uncheck env)) pkgs = Inl e"
      by (simp add: unc scanAllDependencies_def)
    from runPackageCommand_throws [OF this, of c a] e(2) show ?thesis
      by (auto simp: initialState_def)
  qed
  moreover have "scanAllDependencies
        (h\<lparr>readFile := \<lambda>f. map_option
             (\<lambda>m. if name m \<in> set ns then m\<lparr>dependencies := dd f\<rparr> else m) (readFile h f)\<rparr>)
        (Names ns) pkgs
     = scanAllDependencies h (Names ns) pkgs"
    by (simp add: scanAllDependencies_def scanDependencies_unchecked)
  ultimately show ?thesis by blast
qed

theorem checked_manifest_without_dependencies_witness:
  "processUncheck (uncheck noEnv) = Names []
   \<and> ''b/p'' \<in> set [''a/p'', ''b/p'']
   \<and> map_option dependencies (readFile (workspace bare []) ''b/p'') = Some None
   \<and> fst (runPackageCommand (workspace bare []) noEnv [''a/p'', ''b/p''] ''yarn'' [''build''])
       = Threw TypeError
   \<and> dispatched (snd (runPackageCommand (workspace bare []) noEnv [''a/p'', ''b/p'']
                         ''yarn'' [''build''])) = []"
proof -
  let ?b = "\<lparr>name = ''B'', version = ''1.0.0'', dependencies = None, devDependencies = None\<rparr>"
  have unc: "processUncheck (uncheck noEnv) = Names []"
    by (simp add: processUncheck_def noEnv_def)
  have mem: "''b/p'' \<in> set [''a/p'', ''b/p'']"
    by simp
  have b: "readFile (workspace bare []) ''b/p'' = Some ?b"
    by (simp add: workspace_def bare_def)
  have none: "dependencies ?b = None" and name: "name ?b \<notin> set []"
    by simp_all
  have all: "\<not> (\<exists>f \<in> set [''a/p'', ''b/p'']. readFile (workspace bare []) f = None)"
    by (simp add: workspace_def bare_def)
  note throws = checked_manifest_without_dependencies_throws
    [where env = noEnv and ns = "[]" and fl = "''b/p''" and pkgs = "[''a/p'', ''b/p'']"
       and h = "workspace bare []" and info = ?b and c = "''yarn''" and a = "[''build'']",
     THEN conjunct1, rule_format]
  from throws [OF conjI [OF unc conjI [OF mem conjI [OF b conjI [OF none name]]]]] all
  have "fst (runPackageCommand (workspace bare []) noEnv [''a/p'', ''b/p''] ''yarn'' [''build''])
          = Threw TypeError"
    and "dispatched (snd (runPackageCommand (workspace bare []) noEnv [''a/p'', ''b/p'']
                         ''yarn'' [''build''])) = []"
    by auto
  with unc mem b show ?thesis
    by simp
qed

subsection \<open>The graph is a function of the manifests\<close>

text \<open>
  C10. Two scans over lists of files with the same manifests, one after another in the
  same order, and with the same exemptions give the same result: the same \<^verbatim>\<open>deps\<close>, each
  list in the same order, or the same exception. Nothing else of the host is read, and
  the paths of the files do not matter.
\<close>

theorem adjacency_depends_on_manifests_only:
  assumes "map (readFile h1) pkgs1 = map (readFile h2) pkgs2"
  shows "map_sum id snd (scanAllDependencies h1 unc pkgs1)
           = map_sum id snd (scanAllDependencies h2 unc pkgs2)"
proof (cases unc)
  case ExemptAll
  then show ?thesis
    by (simp add: scanAllDependencies_def)
next
  case (Names ns)
  with scanDependencies_reads [OF assms assms, of ns Map.empty Map.empty Map.empty]
  show ?thesis
    by (simp add: scanAllDependencies_def)
qed

theorem adjacency_depends_on_manifests_only_witness:
  "map (readFile (workspace chain [])) [''a/p'', ''b/p'', ''c/p'']
     = map (readFile ((workspace chainElsewhere [''w/a''])\<lparr>cpus := 16\<rparr>))
         [''w/a/p'', ''w/b/p'', ''w/c/p'']
   \<and> map_sum id snd (scanAllDependencies (workspace chain []) (Names [])
                        [''a/p'', ''b/p'', ''c/p''])
     = map_sum id snd (scanAllDependencies ((workspace chainElsewhere [''w/a''])\<lparr>cpus := 16\<rparr>)
                         (Names []) [''w/a/p'', ''w/b/p'', ''w/c/p''])
   \<and> unresolved (builtDeps ((workspace chainElsewhere [''w/a''])\<lparr>cpus := 16\<rparr>) (Names [])
                   [''w/a/p'', ''w/b/p'', ''w/c/p'']) ''C'' = [''B'']"
proof -
  have same: "map (readFile (workspace chain [])) [''a/p'', ''b/p'', ''c/p'']
     = map (readFile ((workspace chainElsewhere [''w/a''])\<lparr>cpus := 16\<rparr>))
         [''w/a/p'', ''w/b/p'', ''w/c/p'']"
    by (simp add: workspace_def chain_def chainElsewhere_def)
  have "unresolved (builtDeps ((workspace chainElsewhere [''w/a''])\<lparr>cpus := 16\<rparr>) (Names [])
                   [''w/a/p'', ''w/b/p'', ''w/c/p'']) ''C'' = [''B'']"
    by (simp add: evaluate chainElsewhere_def)
  with same adjacency_depends_on_manifests_only [OF same, of "Names []"] show ?thesis
    by blast
qed

end
